theory Spec2Isabelle
  imports Main "HOL-Library.Word" "HOL-Library.Monad_Syntax"
begin

unbundle bit_operations_syntax

section \<open>Bytes, fixed-width integers and the encoding/binary helpers\<close>

text \<open>
  Go's \<open>byte\<close> is an 8-bit word, \<open>uint32\<close> and \<open>uint64\<close> are 32- and 64-bit words,
  \<open>int64\<close> and \<open>int\<close> (on the 64-bit platforms the node runs on) are 64-bit words read
  with \<open>sint\<close>. A slice \<open>[]byte\<close> is a list of bytes. \<open>big.Int\<close> is \<open>int\<close>.
  A Go panic (an index out of range, a nil dereference, an explicit \<open>panic\<close>) is the
  value \<open>None\<close> of an option result.
\<close>

type_synonym byte = "8 word"
type_synonym bytes = "byte list"
type_synonym uint32 = "32 word"
type_synonym uint64 = "64 word"
type_synonym int64 = "64 word"
type_synonym goint = "64 word"

text \<open>Big-endian value of a byte string (also \<open>big.Int.SetBytes\<close>, which accepts any length).\<close>

fun be_nat :: "nat \<Rightarrow> bytes \<Rightarrow> nat" where
  "be_nat acc [] = acc"
| "be_nat acc (b # bs) = be_nat (acc * 256 + unat b) bs"

text \<open>Little-endian value of a byte string.\<close>

fun le_nat :: "bytes \<Rightarrow> nat" where
  "le_nat [] = 0"
| "le_nat (b # bs) = unat b + 256 * le_nat bs"

text \<open>\<open>binary.BigEndian.Uint64(b)\<close>: reads \<open>b[0..7]\<close>, panics when \<open>len(b) < 8\<close>.\<close>

definition BigEndian_Uint64 :: "bytes \<Rightarrow> uint64 option" where
  "BigEndian_Uint64 b = (if length b < 8 then None else Some (of_nat (be_nat 0 (take 8 b))))"

text \<open>\<open>binary.LittleEndian.Uint64(b)\<close>: reads \<open>b[0..7]\<close>, panics when \<open>len(b) < 8\<close>.\<close>

definition LittleEndian_Uint64 :: "bytes \<Rightarrow> uint64 option" where
  "LittleEndian_Uint64 b = (if length b < 8 then None else Some (of_nat (le_nat (take 8 b))))"

text \<open>The \<open>n\<close> little-endian bytes of a value, least significant first.\<close>

fun le_bytes :: "nat \<Rightarrow> nat \<Rightarrow> bytes" where
  "le_bytes 0 v = []"
| "le_bytes (Suc n) v = of_nat (v mod 256) # le_bytes n (v div 256)"

text \<open>The \<open>n\<close> big-endian bytes of a value, most significant first.\<close>

definition be_bytes :: "nat \<Rightarrow> nat \<Rightarrow> bytes" where
  "be_bytes n v = rev (le_bytes n v)"

text \<open>
  \<open>binary.LittleEndian.PutUint64(b, v)\<close>: overwrites \<open>b[0..7]\<close>, panics when
  \<open>len(b) < 8\<close>. \<open>binary.BigEndian.PutUint32(b, v)\<close>: overwrites \<open>b[0..3]\<close>, panics when
  \<open>len(b) < 4\<close>.
\<close>

definition LittleEndian_PutUint64 :: "bytes \<Rightarrow> uint64 \<Rightarrow> bytes option" where
  "LittleEndian_PutUint64 b v =
     (if length b < 8 then None else Some (le_bytes 8 (unat v) @ drop 8 b))"

definition BigEndian_PutUint32 :: "bytes \<Rightarrow> uint32 \<Rightarrow> bytes option" where
  "BigEndian_PutUint32 b v =
     (if length b < 4 then None else Some (be_bytes 4 (unat v) @ drop 4 b))"

section \<open>math/big helpers\<close>

definition SetBytes :: "bytes \<Rightarrow> int" where
  "SetBytes buf = int (be_nat 0 buf)"

text \<open>\<open>x.Bytes()\<close>: the big-endian bytes of \<open>|x|\<close> with no leading zero byte (empty for 0).\<close>

function nat_Bytes :: "nat \<Rightarrow> bytes" where
  "nat_Bytes n = (if n = 0 then [] else nat_Bytes (n div 256) @ [of_nat (n mod 256)])"
  by pat_completeness auto
termination
  by (relation "measure id") auto

definition Bytes :: "int \<Rightarrow> bytes" where
  "Bytes x = nat_Bytes (nat \<bar>x\<bar>)"

text \<open>\<open>x.BitLen()\<close>: the length of \<open>|x|\<close> in bits; 0 for 0.\<close>

function nat_BitLen :: "nat \<Rightarrow> nat" where
  "nat_BitLen n = (if n = 0 then 0 else Suc (nat_BitLen (n div 2)))"
  by pat_completeness auto
termination
  by (relation "measure id") auto

definition BitLen :: "int \<Rightarrow> nat" where
  "BitLen x = nat_BitLen (nat \<bar>x\<bar>)"

text \<open>\<open>x.Cmp(y)\<close>: -1, 0 or +1.\<close>

definition Cmp :: "int \<Rightarrow> int \<Rightarrow> int" where
  "Cmp x y = (if x < y then - 1 else if x = y then 0 else 1)"

section \<open>toBig\<close>

text \<open>
  \<open>toBig\<close> takes a copy of the hash bytes, reverses it in place by swapping \<open>buf[i]\<close>
  with \<open>buf[blen-1-i]\<close> for \<open>i < blen/2\<close>, and hands the buffer to \<open>SetBytes\<close>.
\<close>

function toBig_loop :: "nat \<Rightarrow> bytes \<Rightarrow> bytes" where
  "toBig_loop i buf =
     (if i < length buf div 2
      then toBig_loop (i + 1)
             (buf[i := buf ! (length buf - 1 - i), length buf - 1 - i := buf ! i])
      else buf)"
  by pat_completeness auto
termination
  by (relation "measure (\<lambda>(i, buf). length buf div 2 - i)") auto

definition toBig :: "bytes \<Rightarrow> int" where
  "toBig hash = SetBytes (toBig_loop 0 hash)"

section \<open>External collaborators\<close>

text \<open>
  The block header is an interface of getters and setters over its fields; the fields the
  proof-of-work code reads or writes are named, every other field lives in the record's
  extension.
\<close>

record header =
  hdr_Bits :: uint32
  hdr_TimeInMilliseconds :: int64
  hdr_Nonce :: uint64
  hdr_DirectParents :: "bytes list list"

text \<open>
  The functions the package imports and that are not part of it are parameters:
  \<open>sha256.Sum256\<close>; BLAKE2b-512 (\<open>blake2b.New512(nil)\<close>, written to and summed);
  the two hash writers of package \<open>hashes\<close>, each taken as the function from the bytes
  written to the finalised digest; \<open>serialization.WriteElement\<close> on an \<open>int64\<close> and on a
  \<open>uint64\<close>, giving the bytes it writes or \<open>None\<close> for a returned error;
  \<open>generateMatrix\<close>, \<open>bHeavyHash\<close> and \<open>HoohashMatrixMultiplication\<close> of the matrix type
  \<open>'m\<close>; \<open>difficulty.CompactToBig\<close>; \<open>consensushashing.HeaderHash\<close>.
\<close>

record ('m, 'h) collab =
  sha256_Sum256 :: "bytes \<Rightarrow> bytes"
  blake2b_Sum512 :: "bytes \<Rightarrow> bytes"
  PoWHash :: "bytes \<Rightarrow> bytes"
  Blake3Hash :: "bytes \<Rightarrow> bytes"
  WriteElement_int64 :: "int64 \<Rightarrow> bytes option"
  WriteElement_uint64 :: "uint64 \<Rightarrow> bytes option"
  generateMatrix :: "bytes \<Rightarrow> 'm"
  bHeavyHash :: "'m \<Rightarrow> bytes \<Rightarrow> bytes"
  HoohashMatrixMultiplication :: "'m \<Rightarrow> bytes \<Rightarrow> bytes"
  CompactToBig :: "uint32 \<Rightarrow> int"
  HeaderHash :: "'h header_scheme \<Rightarrow> bytes"

text \<open>
  What the Go types of the collaborators promise: \<open>Sum256\<close> returns a \<open>[32]byte\<close>,
  BLAKE2b-512 a 64-byte sum, every \<open>DomainHash\<close> holds 32 bytes, and a write to a hash
  writer returns no error.
\<close>

definition sha256_ok :: "('m, 'h) collab \<Rightarrow> bool" where
  "sha256_ok c = (\<forall>m. length (sha256_Sum256 c m) = 32)"

definition blake2b_ok :: "('m, 'h) collab \<Rightarrow> bool" where
  "blake2b_ok c = (\<forall>m. length (blake2b_Sum512 c m) = 64)"

definition domainHash_ok :: "('m, 'h) collab \<Rightarrow> bool" where
  "domainHash_ok c =
     ((\<forall>m. length (PoWHash c m) = 32) \<and> (\<forall>m. length (Blake3Hash c m) = 32)
      \<and> (\<forall>x h. length (bHeavyHash c x h) = 32) \<and> (\<forall>h. length (HeaderHash c h) = 32))"

definition serialization_ok :: "('m, 'h) collab \<Rightarrow> bool" where
  "serialization_ok c =
     (\<forall>v. WriteElement_int64 c v \<noteq> None \<and> WriteElement_uint64 c v \<noteq> None)"

section \<open>The lookup table\<close>

text \<open>
  \<open>lookupTable\<close> is a package-level array of \<open>tableSize\<close> words: a store from indices to
  words, passed in and returned by everything that writes it. \<open>seed\<close> is declared once,
  outside the loop, and only its first four bytes are ever overwritten.
\<close>

definition tableSize :: nat where
  "tableSize = 2 ^ 20"

type_synonym table = "nat \<Rightarrow> uint64"

function generateHoohashLookupTable_loop ::
  "('m, 'h) collab \<Rightarrow> nat \<Rightarrow> bytes \<Rightarrow> table \<Rightarrow> (bytes \<times> table) option" where
  "generateHoohashLookupTable_loop c i seed lookupTable =
     (if i < tableSize then
        do {
          seed' \<leftarrow> BigEndian_PutUint32 seed (of_nat i);
          let hash = sha256_Sum256 c seed';
          v \<leftarrow> BigEndian_Uint64 (take 8 hash);
          generateHoohashLookupTable_loop c (i + 1) seed' (lookupTable(i := v))
        }
      else Some (seed, lookupTable))"
  by pat_completeness auto
termination
  by (relation "measure (\<lambda>(c, i, seed, lookupTable). tableSize - i)") auto

definition generateHoohashLookupTable :: "('m, 'h) collab \<Rightarrow> table \<Rightarrow> table option" where
  "generateHoohashLookupTable c lookupTable =
     map_option snd (generateHoohashLookupTable_loop c 0 (replicate 32 0) lookupTable)"

section \<open>timeMemoryTradeoff\<close>

function timeMemoryTradeoff_loop :: "table \<Rightarrow> nat \<Rightarrow> uint64 \<Rightarrow> uint64" where
  "timeMemoryTradeoff_loop lookupTable i result =
     (if i < 1000 then
        let index = unat (result mod of_nat tableSize);
            result1 = result XOR lookupTable index;
            result2 = push_bit 1 result1 OR drop_bit 63 result1
        in timeMemoryTradeoff_loop lookupTable (i + 1) result2
      else result)"
  by pat_completeness auto
termination
  by (relation "measure (\<lambda>(lookupTable, i, result). 1000 - i)") auto

definition timeMemoryTradeoff :: "table \<Rightarrow> uint64 \<Rightarrow> uint64" where
  "timeMemoryTradeoff lookupTable input = timeMemoryTradeoff_loop lookupTable 0 input"

section \<open>memoryHardFunction\<close>

definition memorySize :: nat where
  "memorySize = 2 ^ 10"

definition mh_iterations :: nat where
  "mh_iterations = 2"

text \<open>An indexed read of a slice panics out of range; so does the slice expression \<open>b[n:]\<close>.\<close>

definition index :: "'a list \<Rightarrow> nat \<Rightarrow> 'a option" where
  "index xs i = (if i < length xs then Some (xs ! i) else None)"

definition slice_from :: "'a list \<Rightarrow> nat \<Rightarrow> 'a list option" where
  "slice_from xs n = (if n \<le> length xs then Some (drop n xs) else None)"

text \<open>The first loop: \<open>for i := range memory { memory[i] = LittleEndian.Uint64(input) }\<close>.\<close>

function memoryHardFunction_init :: "bytes \<Rightarrow> nat \<Rightarrow> uint64 list \<Rightarrow> uint64 list option" where
  "memoryHardFunction_init input i memory =
     (if i < length memory then
        do {
          v \<leftarrow> LittleEndian_Uint64 input;
          memoryHardFunction_init input (i + 1) (memory[i := v])
        }
      else Some memory)"
  by pat_completeness auto
termination
  by (relation "measure (\<lambda>(input, i, memory). length memory - i)") auto

text \<open>
  The inner loop over \<open>j\<close>: both indices come from \<open>memory[j]\<close>, the two words they name are
  written little-endian to a fresh BLAKE2b-512, and \<open>memory[j]\<close> becomes the little-endian
  decode of the first 8 bytes of the sum. The loops take the hash function they call.
\<close>

function memoryHardFunction_inner ::
  "(bytes \<Rightarrow> bytes) \<Rightarrow> nat \<Rightarrow> uint64 list \<Rightarrow> uint64 list option" where
  "memoryHardFunction_inner blake2b j memory =
     (if j < memorySize then
        do {
          mj \<leftarrow> index memory j;
          let index1 = unat (mj mod of_nat memorySize);
          let index2 = unat (drop_bit 32 mj mod of_nat memorySize);
          m1 \<leftarrow> index memory index1;
          m2 \<leftarrow> index memory index2;
          let sum = blake2b (le_bytes 8 (unat m1) @ le_bytes 8 (unat m2));
          v \<leftarrow> LittleEndian_Uint64 sum;
          if j < length memory
          then memoryHardFunction_inner blake2b (j + 1) (memory[j := v])
          else None
        }
      else Some memory)"
  by pat_completeness auto
termination
  by (relation "measure (\<lambda>(blake2b, j, memory). memorySize - j)") auto

function memoryHardFunction_outer ::
  "(bytes \<Rightarrow> bytes) \<Rightarrow> nat \<Rightarrow> uint64 list \<Rightarrow> uint64 list option" where
  "memoryHardFunction_outer blake2b i memory =
     (if i < mh_iterations then
        do {
          memory' \<leftarrow> memoryHardFunction_inner blake2b 0 memory;
          memoryHardFunction_outer blake2b (i + 1) memory'
        }
      else Some memory)"
  by pat_completeness auto
termination
  by (relation "measure (\<lambda>(blake2b, i, memory). mh_iterations - i)") auto

text \<open>The last loop: \<open>LittleEndian.PutUint64(result[i*8:], memory[i])\<close> for \<open>i < 8\<close>.\<close>

function memoryHardFunction_combine :: "nat \<Rightarrow> bytes \<Rightarrow> uint64 list \<Rightarrow> bytes option" where
  "memoryHardFunction_combine i result memory =
     (if i < 8 then
        do {
          tail \<leftarrow> slice_from result (i * 8);
          m \<leftarrow> index memory i;
          tail' \<leftarrow> LittleEndian_PutUint64 tail m;
          memoryHardFunction_combine (i + 1) (take (i * 8) result @ tail') memory
        }
      else Some result)"
  by pat_completeness auto
termination
  by (relation "measure (\<lambda>(i, result, memory). 8 - i)") auto

definition memoryHardFunction :: "('m, 'h) collab \<Rightarrow> bytes \<Rightarrow> bytes option" where
  "memoryHardFunction c input =
     do {
       memory \<leftarrow> memoryHardFunction_init input 0 (replicate memorySize 0);
       memory' \<leftarrow> memoryHardFunction_outer (blake2b_Sum512 c) 0 memory;
       memoryHardFunction_combine 0 (replicate 64 0) memory'
     }"

section \<open>verifiableDelayFunction\<close>

text \<open>
  \<open>new(big.Int).SetString(s, 16)\<close>: an optional sign, then one or more hexadecimal digits
  and nothing else; \<open>nil\<close> (here \<open>None\<close>) for any other string.
\<close>

definition hexDigit :: "char \<Rightarrow> nat option" where
  "hexDigit ch =
     (let n = (of_char ch :: nat) in
      if 48 \<le> n \<and> n \<le> 57 then Some (n - 48)
      else if 97 \<le> n \<and> n \<le> 102 then Some (n - 87)
      else if 65 \<le> n \<and> n \<le> 70 then Some (n - 55)
      else None)"

fun hexDigits :: "nat \<Rightarrow> string \<Rightarrow> nat option" where
  "hexDigits acc [] = Some acc"
| "hexDigits acc (ch # s) =
     (case hexDigit ch of None \<Rightarrow> None | Some d \<Rightarrow> hexDigits (acc * 16 + d) s)"

definition SetString16 :: "string \<Rightarrow> int option" where
  "SetString16 s =
     (case s of
        [] \<Rightarrow> None
      | ch # rest \<Rightarrow>
          if ch = CHR ''-'' then
            (if rest = [] then None else map_option (\<lambda>n. - int n) (hexDigits 0 rest))
          else if ch = CHR ''+'' then
            (if rest = [] then None else map_option int (hexDigits 0 rest))
          else map_option int (hexDigits 0 s))"

text \<open>\<open>z.Mod(x, y)\<close>: the Euclidean modulus; a division-by-zero panic for \<open>y = 0\<close>.\<close>

definition big_Mod :: "int \<Rightarrow> int \<Rightarrow> int option" where
  "big_Mod x y = (if y = 0 then None else Some (x mod \<bar>y\<bar>))"

definition vdf_iterations :: nat where
  "vdf_iterations = 1000"

function verifiableDelayFunction_loop :: "nat \<Rightarrow> int \<Rightarrow> int \<Rightarrow> int option" where
  "verifiableDelayFunction_loop i p x =
     (if i < vdf_iterations then
        do {
          let x1 = x * x;
          x2 \<leftarrow> big_Mod x1 p;
          verifiableDelayFunction_loop (i + 1) p x2
        }
      else Some x)"
  by pat_completeness auto
termination
  by (relation "measure (\<lambda>(i, p, x). vdf_iterations - i)") auto

text \<open>
  The result of \<open>SetString\<close> is used without looking at its \<open>ok\<close> flag: a failed parse
  leaves \<open>p\<close> nil and the first \<open>Mod\<close> panics.
\<close>

definition verifiableDelayFunction :: "('m, 'h) collab \<Rightarrow> bytes \<Rightarrow> bytes option" where
  "verifiableDelayFunction c input =
     do {
       p \<leftarrow> SetString16 ''FFFFFFFFFFFFFFFFFFFFFFFFFFFFFFFFFFFFFFFFFFFFFFFFFFFFFFFEFFFFFC2F'';
       let x = SetBytes input;
       x' \<leftarrow> verifiableDelayFunction_loop 0 p x;
       let hash = sha256_Sum256 c (Bytes x');
       Some hash
     }"

section \<open>State and the three variants\<close>

record 'm State =
  mat :: 'm
  Timestamp :: int64
  Nonce :: uint64
  Target :: int
  prePowHash :: bytes

text \<open>
  Every variant writes the same message to its hash writer:
  \<open>PRE_POW_HASH || TIME || 32 zero byte padding || NONCE\<close>, and panics when a
  \<open>WriteElement\<close> returns an error.
\<close>

definition powMessage :: "('m, 'h) collab \<Rightarrow> 'm State \<Rightarrow> bytes option" where
  "powMessage c state =
     do {
       time \<leftarrow> WriteElement_int64 c (Timestamp state);
       let zeroes = replicate 32 0;
       nonce \<leftarrow> WriteElement_uint64 c (Nonce state);
       Some (prePowHash state @ time @ zeroes @ nonce)
     }"

definition CalculateProofOfWorkValue :: "('m, 'h) collab \<Rightarrow> 'm State \<Rightarrow> int option" where
  "CalculateProofOfWorkValue c state =
     do {
       message \<leftarrow> powMessage c state;
       let powHash = PoWHash c message;
       let hash = bHeavyHash c (mat state) powHash;
       Some (toBig hash)
     }"

text \<open>\<open>(*[32]byte)(combined)\<close>: the first 32 bytes; a panic when the slice is shorter.\<close>

definition array32 :: "bytes \<Rightarrow> bytes option" where
  "array32 combined = (if length combined < 32 then None else Some (take 32 combined))"

text \<open>
  The slice \<open>combined\<close> of the rev2 variant, from the finalised \<open>powHash\<close>:
  \<open>memoryHardResult\<close>, then \<open>vdfResult\<close>, then the low byte of \<open>tradeoffResult\<close>.
\<close>

definition rev2_combined :: "('m, 'h) collab \<Rightarrow> table \<Rightarrow> bytes \<Rightarrow> bytes option" where
  "rev2_combined c lookupTable powHash =
     do {
       memoryHardResult \<leftarrow> memoryHardFunction c powHash;
       w \<leftarrow> BigEndian_Uint64 memoryHardResult;
       let tradeoffResult = timeMemoryTradeoff lookupTable w;
       vdfResult \<leftarrow> verifiableDelayFunction c memoryHardResult;
       let combined = memoryHardResult @ vdfResult;
       let combined = combined @ [ucast tradeoffResult];
       Some combined
     }"

definition CalculateProofOfWorkValueHoohashRev2 ::
  "('m, 'h) collab \<Rightarrow> table \<Rightarrow> 'm State \<Rightarrow> int option" where
  "CalculateProofOfWorkValueHoohashRev2 c lookupTable state =
     do {
       message \<leftarrow> powMessage c state;
       let powHash = Blake3Hash c message;
       combined \<leftarrow> rev2_combined c lookupTable powHash;
       hash32 \<leftarrow> array32 combined;
       let multiplied = HoohashMatrixMultiplication c (mat state) hash32;
       Some (toBig (Blake3Hash c multiplied))
     }"

definition CalculateProofOfWorkValueHoohashRev1 :: "('m, 'h) collab \<Rightarrow> 'm State \<Rightarrow> int option" where
  "CalculateProofOfWorkValueHoohashRev1 c state =
     do {
       message \<leftarrow> powMessage c state;
       let powHash = Blake3Hash c message;
       let multiplied = HoohashMatrixMultiplication c (mat state) powHash;
       Some (toBig (Blake3Hash c multiplied))
     }"

section \<open>NewState, IncrementNonce, CheckProofOfWork, BlockLevel\<close>

text \<open>
  \<open>NewState\<close> writes the header it is given and the package's table: it returns the new
  State, the header as the call leaves it, and the table.
\<close>

definition NewState ::
  "('m, 'h) collab \<Rightarrow> 'h header_scheme \<Rightarrow> table \<Rightarrow> ('m State \<times> 'h header_scheme \<times> table) option" where
  "NewState c header lookupTable =
     (let target = CompactToBig c (hdr_Bits header);
          timestamp = hdr_TimeInMilliseconds header;
          nonce = hdr_Nonce header;
          header1 = header\<lparr>hdr_TimeInMilliseconds := 0\<rparr>;
          header2 = header1\<lparr>hdr_Nonce := 0\<rparr>;
          prePowHash' = HeaderHash c header2;
          header3 = header2\<lparr>hdr_TimeInMilliseconds := timestamp\<rparr>;
          header4 = header3\<lparr>hdr_Nonce := nonce\<rparr>
      in do {
        lookupTable' \<leftarrow> generateHoohashLookupTable c lookupTable;
        Some (\<lparr>mat = generateMatrix c prePowHash', Timestamp = timestamp, Nonce = nonce,
                Target = target, prePowHash = prePowHash'\<rparr>,
              header4, lookupTable')
      })"

definition IncrementNonce :: "'m State \<Rightarrow> 'm State" where
  "IncrementNonce state = state\<lparr>Nonce := Nonce state + 1\<rparr>"

definition CheckProofOfWork :: "('m, 'h) collab \<Rightarrow> 'm State \<Rightarrow> bool option" where
  "CheckProofOfWork c state =
     do {
       powNum \<leftarrow> CalculateProofOfWorkValue c state;
       Some (Cmp powNum (Target state) \<le> 0)
     }"

definition CheckProofOfWorkByBits ::
  "('m, 'h) collab \<Rightarrow> 'h header_scheme \<Rightarrow> table \<Rightarrow> (bool \<times> 'h header_scheme \<times> table) option" where
  "CheckProofOfWorkByBits c header lookupTable =
     do {
       (state, header', lookupTable') \<leftarrow> NewState c header lookupTable;
       ok \<leftarrow> CheckProofOfWork c state;
       Some (ok, header', lookupTable')
     }"

text \<open>
  \<open>BlockLevel\<close> gets an immutable header and builds the State on \<open>header.ToMutable()\<close>, a
  copy, so only the table is written. Go's \<open>int\<close> subtraction wraps; \<open>level < 0\<close> is the
  signed comparison.
\<close>

definition BlockLevel ::
  "('m, 'h) collab \<Rightarrow> 'h header_scheme \<Rightarrow> goint \<Rightarrow> table \<Rightarrow> (goint \<times> table) option" where
  "BlockLevel c header maxBlockLevel lookupTable =
     (if length (hdr_DirectParents header) = 0 then Some (maxBlockLevel, lookupTable)
      else do {
        (state, header', lookupTable') \<leftarrow> NewState c header lookupTable;
        proofOfWorkValue \<leftarrow> CalculateProofOfWorkValue c state;
        let level = maxBlockLevel - of_nat (BitLen proofOfWorkValue);
        let level = (if level <s 0 then 0 else level);
        Some (level, lookupTable')
      })"

section \<open>SHA-256 and a set of test collaborators\<close>

text \<open>
  \<open>crypto/sha256\<close> as FIPS 180-4 defines it, so that table entries can be computed: the
  padding, the message schedule, the 64 rounds of the compression function, and the
  big-endian bytes of the eight state words.
\<close>

definition sha256_K :: "32 word list" where
  "sha256_K = [
   0x428a2f98, 0x71374491, 0xb5c0fbcf, 0xe9b5dba5, 0x3956c25b, 0x59f111f1, 0x923f82a4, 0xab1c5ed5,
   0xd807aa98, 0x12835b01, 0x243185be, 0x550c7dc3, 0x72be5d74, 0x80deb1fe, 0x9bdc06a7, 0xc19bf174,
   0xe49b69c1, 0xefbe4786, 0x0fc19dc6, 0x240ca1cc, 0x2de92c6f, 0x4a7484aa, 0x5cb0a9dc, 0x76f988da,
   0x983e5152, 0xa831c66d, 0xb00327c8, 0xbf597fc7, 0xc6e00bf3, 0xd5a79147, 0x06ca6351, 0x14292967,
   0x27b70a85, 0x2e1b2138, 0x4d2c6dfc, 0x53380d13, 0x650a7354, 0x766a0abb, 0x81c2c92e, 0x92722c85,
   0xa2bfe8a1, 0xa81a664b, 0xc24b8b70, 0xc76c51a3, 0xd192e819, 0xd6990624, 0xf40e3585, 0x106aa070,
   0x19a4c116, 0x1e376c08, 0x2748774c, 0x34b0bcb5, 0x391c0cb3, 0x4ed8aa4a, 0x5b9cca4f, 0x682e6ff3,
   0x748f82ee, 0x78a5636f, 0x84c87814, 0x8cc70208, 0x90befffa, 0xa4506ceb, 0xbef9a3f7, 0xc67178f2]"

definition sha256_H0 :: "32 word list" where
  "sha256_H0 = [0x6a09e667, 0xbb67ae85, 0x3c6ef372, 0xa54ff53a,
                0x510e527f, 0x9b05688c, 0x1f83d9ab, 0x5be0cd19]"

definition rotr :: "nat \<Rightarrow> 32 word \<Rightarrow> 32 word" where
  "rotr n x = drop_bit n x OR push_bit (32 - n) x"

definition sha256_pad :: "bytes \<Rightarrow> bytes" where
  "sha256_pad m =
     m @ [0x80] @ replicate ((119 - length m mod 64) mod 64) 0
       @ map (\<lambda>k. ucast (drop_bit (8 * (7 - k)) (of_nat (length m * 8) :: 64 word))) [0..<8]"

fun be_words :: "bytes \<Rightarrow> 32 word list" where
  "be_words (a # b # c # d # rest) =
     (push_bit 24 (ucast a) OR push_bit 16 (ucast b) OR push_bit 8 (ucast c) OR ucast d) # be_words rest"
| "be_words _ = []"

fun sha256_schedule :: "nat \<Rightarrow> 32 word list \<Rightarrow> 32 word list" where
  "sha256_schedule 0 w = w"
| "sha256_schedule (Suc n) w =
     (let t = length w;
          w2 = w ! (t - 2); w7 = w ! (t - 7); w15 = w ! (t - 15); w16 = w ! (t - 16);
          s0 = rotr 7 w15 XOR rotr 18 w15 XOR drop_bit 3 w15;
          s1 = rotr 17 w2 XOR rotr 19 w2 XOR drop_bit 10 w2
      in sha256_schedule n (w @ [s1 + w7 + s0 + w16]))"

definition sha256_round :: "32 word \<times> 32 word \<Rightarrow> 32 word list \<Rightarrow> 32 word list" where
  "sha256_round kw s =
     (let a = s ! 0; b = s ! 1; c = s ! 2; d = s ! 3; e = s ! 4; f = s ! 5; g = s ! 6; h = s ! 7;
          S1 = rotr 6 e XOR rotr 11 e XOR rotr 25 e;
          ch = (e AND f) XOR (NOT e AND g);
          t1 = h + S1 + ch + fst kw + snd kw;
          S0 = rotr 2 a XOR rotr 13 a XOR rotr 22 a;
          maj = (a AND b) XOR (a AND c) XOR (b AND c);
          t2 = S0 + maj
      in [t1 + t2, a, b, c, d + t1, e, f, g])"

definition sha256_block :: "32 word list \<Rightarrow> bytes \<Rightarrow> 32 word list" where
  "sha256_block H block =
     map2 (+) H (fold sha256_round (zip sha256_K (sha256_schedule 48 (be_words block))) H)"

function sha256_blocks :: "32 word list \<Rightarrow> bytes \<Rightarrow> 32 word list" where
  "sha256_blocks H m =
     (if length m < 64 then H else sha256_blocks (sha256_block H (take 64 m)) (drop 64 m))"
  by pat_completeness auto
termination
  by (relation "measure (\<lambda>(H, m). length m)") auto

definition word_be_bytes :: "32 word \<Rightarrow> bytes" where
  "word_be_bytes w = [ucast (drop_bit 24 w), ucast (drop_bit 16 w), ucast (drop_bit 8 w), ucast w]"

definition SHA256 :: "bytes \<Rightarrow> bytes" where
  "SHA256 m = concat (map word_be_bytes (sha256_blocks sha256_H0 (sha256_pad m)))"

text \<open>
  Collaborators for concrete runs. \<open>fit n\<close> cuts or zero-pads to \<open>n\<close> bytes; the hashes
  are reversals fitted to the digest size, the serialisation is the 8-byte little-endian
  encoding, the matrix is trivial. \<open>sha256_collab\<close> has the real SHA-256.
\<close>

definition fit :: "nat \<Rightarrow> bytes \<Rightarrow> bytes" where
  "fit n m = take n (m @ replicate n 0)"

definition stub_collab :: "(unit, unit) collab" where
  "stub_collab =
     \<lparr>sha256_Sum256 = (\<lambda>m. fit 32 (rev m)),
      blake2b_Sum512 = (\<lambda>m. fit 64 (rev m)),
      PoWHash = (\<lambda>m. fit 32 (rev m)),
      Blake3Hash = (\<lambda>m. fit 32 (rev m)),
      WriteElement_int64 = (\<lambda>v. Some (le_bytes 8 (unat v))),
      WriteElement_uint64 = (\<lambda>v. Some (le_bytes 8 (unat v))),
      generateMatrix = (\<lambda>h. ()),
      bHeavyHash = (\<lambda>x h. fit 32 (rev h)),
      HoohashMatrixMultiplication = (\<lambda>x h. h @ h),
      CompactToBig = (\<lambda>bits. uint bits),
      HeaderHash = (\<lambda>h. fit 32 (le_bytes 8 (unat (hdr_TimeInMilliseconds h))
                              @ le_bytes 8 (unat (hdr_Nonce h))
                              @ le_bytes 4 (unat (hdr_Bits h))))\<rparr>"

definition sha256_collab :: "(unit, unit) collab" where
  "sha256_collab = stub_collab\<lparr>sha256_Sum256 := SHA256\<rparr>"

definition stub_state :: "unit State" where
  "stub_state =
     \<lparr>mat = (), Timestamp = 1, Nonce = 2, Target = 0, prePowHash = replicate 32 0\<rparr>"

definition stub_header :: header where
  "stub_header =
     \<lparr>hdr_Bits = 0x1e7fffff, hdr_TimeInMilliseconds = 1700000000000, hdr_Nonce = 42,
      hdr_DirectParents = [[replicate 32 7]]\<rparr>"

text \<open>
  A header without direct parents, and the lookup table as the program starts with it
  (all zero).
\<close>

definition genesis_header :: header where
  "genesis_header = stub_header\<lparr>hdr_DirectParents := []\<rparr>"

definition zero_table :: table where
  "zero_table = (\<lambda>k. 0)"

text \<open>
  The entry at index \<open>i\<close> once \<open>generateHoohashLookupTable\<close> has run on the
  zero-initialised array.
\<close>

definition lookupTable_entry :: "('m, 'h) collab \<Rightarrow> nat \<Rightarrow> uint64 option" where
  "lookupTable_entry c i = map_option (\<lambda>t. t i) (generateHoohashLookupTable c (\<lambda>k. 0))"

section \<open>Properties of the helpers\<close>

declare toBig_loop.simps [simp del]
declare nat_Bytes.simps [simp del]
declare nat_BitLen.simps [simp del]
declare generateHoohashLookupTable_loop.simps [simp del]
declare timeMemoryTradeoff_loop.simps [simp del]
declare memoryHardFunction_init.simps [simp del]
declare memoryHardFunction_inner.simps [simp del]
declare memoryHardFunction_outer.simps [simp del]
declare memoryHardFunction_combine.simps [simp del]
declare verifiableDelayFunction_loop.simps [simp del]
declare sha256_blocks.simps [simp del]

lemma length_toBig_loop: "length (toBig_loop i buf) = length buf"
proof (induction i buf rule: toBig_loop.induct)
  case (1 i buf)
  show ?case
  proof (cases "i < length buf div 2")
    case True
    with "1" show ?thesis by (subst toBig_loop.simps) simp
  next
    case False
    then show ?thesis by (subst toBig_loop.simps) simp
  qed
qed

lemma nth_toBig_loop:
  "k < length buf \<Longrightarrow>
   toBig_loop i buf ! k =
     (if i \<le> k \<and> k < length buf - i then buf ! (length buf - 1 - k) else buf ! k)"
proof (induction i buf arbitrary: k rule: toBig_loop.induct)
  case (1 i buf)
  let ?n = "length buf"
  show ?case
  proof (cases "i < ?n div 2")
    case True
    let ?buf' = "buf[i := buf ! (?n - 1 - i), ?n - 1 - i := buf ! i]"
    have len: "length ?buf' = ?n" by simp
    have step: "toBig_loop i buf = toBig_loop (i + 1) ?buf'"
      using True by (subst toBig_loop.simps) simp
    have ih: "toBig_loop (i + 1) ?buf' ! k =
        (if i + 1 \<le> k \<and> k < ?n - (i + 1) then ?buf' ! (?n - 1 - k) else ?buf' ! k)"
      using "1.IH" [OF True, of k] "1.prems" len by simp
    show ?thesis
      unfolding step ih using True "1.prems"
      by (auto simp: nth_list_update)
  next
    case False
    have stop: "toBig_loop i buf = buf"
      using False by (subst toBig_loop.simps) simp
    have "?n - 1 - k = k" if "i \<le> k" "k < ?n - i"
      using that False by linarith
    then show ?thesis unfolding stop by auto
  qed
qed

lemma toBig_loop_rev: "toBig_loop 0 buf = rev buf"
proof (rule nth_equalityI)
  show "length (toBig_loop 0 buf) = length (rev buf)"
    by (simp add: length_toBig_loop)
next
  fix k assume "k < length (toBig_loop 0 buf)"
  then have k: "k < length buf" by (simp add: length_toBig_loop)
  then show "toBig_loop 0 buf ! k = rev buf ! k"
    by (simp add: nth_toBig_loop rev_nth)
qed

lemma be_nat_append: "be_nat acc (xs @ ys) = be_nat (be_nat acc xs) ys"
  by (induction xs arbitrary: acc) auto

lemma be_nat_acc: "be_nat acc xs = acc * 256 ^ length xs + be_nat 0 xs"
proof (induction xs arbitrary: acc)
  case Nil
  then show ?case by simp
next
  case (Cons b bs)
  have "be_nat acc (b # bs) = be_nat (acc * 256 + unat b) bs" by simp
  also have "\<dots> = (acc * 256 + unat b) * 256 ^ length bs + be_nat 0 bs"
    by (rule Cons.IH)
  also have "\<dots> = acc * 256 ^ length (b # bs) + (unat b * 256 ^ length bs + be_nat 0 bs)"
    by (simp add: algebra_simps)
  also have "unat b * 256 ^ length bs + be_nat 0 bs = be_nat 0 (b # bs)"
    using Cons.IH [of "unat b"] by simp
  finally show ?case .
qed

lemma be_nat_rev: "be_nat 0 (rev xs) = le_nat xs"
proof (induction xs)
  case Nil
  then show ?case by simp
next
  case (Cons b bs)
  have "be_nat 0 (rev (b # bs)) = be_nat (be_nat 0 (rev bs)) [b]"
    by (simp add: be_nat_append)
  then show ?case using Cons by simp
qed

lemma be_nat_replicate_0: "be_nat acc (replicate n 0) = acc * 256 ^ n"
  by (induction n arbitrary: acc) (auto simp: algebra_simps)

lemma le_nat_replicate_0: "le_nat (replicate n 0) = 0"
  by (induction n) auto

lemma toBig_rev: "toBig digest = SetBytes (rev digest)"
  by (simp add: toBig_def toBig_loop_rev)

lemma toBig_le_nat: "toBig digest = int (le_nat digest)"
  unfolding toBig_rev SetBytes_def be_nat_rev ..

lemma toBig_one_first: "toBig (1 # replicate 31 0) = 1"
  unfolding toBig_le_nat by (simp add: le_nat_replicate_0)

section \<open>Claims about toBig\<close>

text \<open>
  C3 (amended). \<open>toBig\<close> reverses the digest's byte order and parses the reversed bytes as
  a big-endian unsigned integer, so the digest is read as a little-endian number. For the
  32-byte digest whose first byte is 0x01 and whose other 31 bytes are 0x00 the work value
  is 1: after the reversal the 0x01 is the last, least significant byte. The value
  \<open>2^248\<close> belongs to the digest whose last byte is 0x01.
\<close>

theorem toBig_reverse_then_big_endian:
  "toBig digest = SetBytes (rev digest)
   \<and> toBig digest = int (le_nat digest)
   \<and> toBig (1 # replicate 31 0) = 1
   \<and> toBig (replicate 31 0 @ [1]) = 2 ^ 248"
proof -
  have "toBig (replicate 31 0 @ [1]) = int (be_nat 0 (1 # replicate 31 0))"
    unfolding toBig_rev SetBytes_def by simp
  then have "toBig (replicate 31 0 @ [1]) = 2 ^ 248"
    by (simp add: be_nat_replicate_0)
  then show ?thesis
    using toBig_rev toBig_le_nat toBig_one_first by blast
qed

text \<open>
  C3 as stated fails: the work value of the digest \<open>[0x01, 0x00 \<times> 31]\<close> is not \<open>2^248\<close>.
\<close>

theorem toBig_first_byte_one_counterexample:
  "toBig (1 # replicate 31 0) \<noteq> 2 ^ 248"
  using toBig_one_first by simp

section \<open>Evaluation on numerals\<close>

lemma replicate_numeral:
  "replicate (numeral k) x = x # replicate (pred_numeral k) x"
  using replicate.simps(2) [of "pred_numeral k" x]
  by (simp only: numeral_eq_Suc [symmetric])

lemma le_bytes_numeral:
  "le_bytes (numeral k) v = of_nat (v mod 256) # le_bytes (pred_numeral k) (v div 256)"
  using le_bytes.simps(2) [of "pred_numeral k" v]
  by (simp only: numeral_eq_Suc [symmetric])

lemma length_le_bytes [simp]: "length (le_bytes n v) = n"
  by (induction n arbitrary: v) auto

lemma length_be_bytes [simp]: "length (be_bytes n v) = n"
  by (simp add: be_bytes_def)

section \<open>The test collaborators honour the contracts\<close>

lemma length_fit [simp]: "length (fit n m) = n"
  by (simp add: fit_def)

lemma stub_sha256_ok: "sha256_ok stub_collab"
  by (simp add: sha256_ok_def stub_collab_def)

lemma stub_blake2b_ok: "blake2b_ok stub_collab"
  by (simp add: blake2b_ok_def stub_collab_def)

lemma stub_domainHash_ok: "domainHash_ok stub_collab"
  by (simp add: domainHash_ok_def stub_collab_def)

lemma stub_serialization_ok: "serialization_ok stub_collab"
  by (simp add: serialization_ok_def stub_collab_def)

lemma length_sha256_round: "length (sha256_round kw s) = 8"
  by (simp add: sha256_round_def Let_def)

lemma length_fold_sha256_round:
  "length s = 8 \<Longrightarrow> length (fold sha256_round kws s) = 8"
  by (induction kws arbitrary: s) (auto simp: length_sha256_round)

lemma length_sha256_block: "length H = 8 \<Longrightarrow> length (sha256_block H b) = 8"
  by (simp add: sha256_block_def length_fold_sha256_round)

lemma length_sha256_blocks: "length H = 8 \<Longrightarrow> length (sha256_blocks H m) = 8"
proof (induction H m rule: sha256_blocks.induct)
  case (1 H m)
  then show ?case
    by (subst sha256_blocks.simps) (simp add: length_sha256_block)
qed

lemma length_concat_word_be_bytes:
  "length (concat (map word_be_bytes ws)) = 4 * length ws"
  by (induction ws) (auto simp: word_be_bytes_def)

lemma length_SHA256: "length (SHA256 m) = 32"
  by (simp add: SHA256_def length_concat_word_be_bytes length_sha256_blocks sha256_H0_def)

lemma sha256_collab_ok: "sha256_ok sha256_collab"
  by (simp add: sha256_ok_def sha256_collab_def length_SHA256)

text \<open>The FIPS 180-4 test vector \<open>"abc"\<close>, and the two digests the table's entry 0 needs.\<close>

lemma SHA256_abc:
  "SHA256 [0x61, 0x62, 0x63] =
     [0xba, 0x78, 0x16, 0xbf, 0x8f, 0x01, 0xcf, 0xea, 0x41, 0x41, 0x40, 0xde, 0x5d, 0xae,
      0x22, 0x23, 0xb0, 0x03, 0x61, 0xa3, 0x96, 0x17, 0x7a, 0x9c, 0xb4, 0x10, 0xff, 0x61,
      0xf2, 0x00, 0x15, 0xad]"
  by code_simp

lemma SHA256_zero32:
  "take 8 (SHA256 (replicate 32 0)) = [0x66, 0x68, 0x7a, 0xad, 0xf8, 0x62, 0xbd, 0x77]"
  by code_simp

lemma SHA256_zero4:
  "take 8 (SHA256 (replicate 4 0)) = [0xdf, 0x3f, 0x61, 0x98, 0x04, 0xa9, 0x2f, 0xdb]"
  by code_simp

section \<open>The nonce\<close>

lemma funpow_IncrementNonce:
  "(IncrementNonce ^^ n) s = s\<lparr>Nonce := Nonce s + of_nat n\<rparr>"
  by (induction n) (simp_all add: IncrementNonce_def add.assoc add.commute)

lemma unat_add_of_nat: "unat ((x :: 64 word) + of_nat n) = (unat x + n) mod 2 ^ 64"
  by (simp add: unat_word_ariths unat_of_nat mod_add_right_eq)

text \<open>
  C7. After \<open>n\<close> calls of \<open>IncrementNonce\<close> the nonce is the initial nonce plus \<open>n\<close>
  modulo \<open>2^64\<close>, and no other field of the State has changed.
\<close>

theorem IncrementNonce_n_times:
  "unat (Nonce ((IncrementNonce ^^ n) s)) = (unat (Nonce s) + n) mod 2 ^ 64
   \<and> (IncrementNonce ^^ n) s = s\<lparr>Nonce := Nonce s + of_nat n\<rparr>
   \<and> mat ((IncrementNonce ^^ n) s) = mat s
   \<and> Timestamp ((IncrementNonce ^^ n) s) = Timestamp s
   \<and> Target ((IncrementNonce ^^ n) s) = Target s
   \<and> prePowHash ((IncrementNonce ^^ n) s) = prePowHash s"
  by (simp add: funpow_IncrementNonce unat_add_of_nat)

section \<open>CheckProofOfWork\<close>

lemma powMessage_ok:
  assumes "serialization_ok c"
  shows "\<exists>m. powMessage c s = Some m"
proof -
  from assms obtain t where t: "WriteElement_int64 c (Timestamp s) = Some t"
    unfolding serialization_ok_def by fastforce
  from assms obtain n where n: "WriteElement_uint64 c (Nonce s) = Some n"
    unfolding serialization_ok_def by fastforce
  show ?thesis by (simp add: powMessage_def t n)
qed

lemma powMessage_Target [simp]: "powMessage c (s\<lparr>Target := t\<rparr>) = powMessage c s"
  by (simp add: powMessage_def)

lemma CalculateProofOfWorkValue_Target [simp]:
  "CalculateProofOfWorkValue c (s\<lparr>Target := t\<rparr>) = CalculateProofOfWorkValue c s"
  by (simp add: CalculateProofOfWorkValue_def)

lemma CalculateProofOfWorkValue_ok:
  "serialization_ok c \<Longrightarrow> \<exists>w. CalculateProofOfWorkValue c s = Some w"
  using powMessage_ok [of c s] by (auto simp: CalculateProofOfWorkValue_def Let_def)

lemma CheckProofOfWork_Some:
  "CalculateProofOfWorkValue c s = Some w \<Longrightarrow> CheckProofOfWork c s = Some (w \<le> Target s)"
  by (auto simp: CheckProofOfWork_def Cmp_def)

lemma stub_work: "CalculateProofOfWorkValue stub_collab stub_state = Some (2 ^ 193)"
  by (simp add: CalculateProofOfWorkValue_def powMessage_def stub_collab_def stub_state_def
      fit_def toBig_le_nat le_bytes_numeral replicate_numeral)

text \<open>
  C4. When the writes to the hash writer succeed, \<open>CalculateProofOfWorkValue\<close> returns a
  work value \<open>w\<close> and \<open>CheckProofOfWork\<close> returns whether \<open>w \<le> Target\<close>: true for a
  target equal to \<open>w\<close>, false for the target \<open>w - 1\<close>.
\<close>

theorem CheckProofOfWork_inclusive:
  assumes "serialization_ok c"
  shows "\<exists>w. CalculateProofOfWorkValue c s = Some w
      \<and> CheckProofOfWork c s = Some (w \<le> Target s)
      \<and> CheckProofOfWork c (s\<lparr>Target := w\<rparr>) = Some True
      \<and> CheckProofOfWork c (s\<lparr>Target := w - 1\<rparr>) = Some False"
proof -
  from CalculateProofOfWorkValue_ok [OF assms] obtain w
    where w: "CalculateProofOfWorkValue c s = Some w" by blast
  have "CheckProofOfWork c (s\<lparr>Target := t\<rparr>) = Some (w \<le> t)" for t
    using CheckProofOfWork_Some [of c "s\<lparr>Target := t\<rparr>" w] w by simp
  from this [of w] this [of "w - 1"] w CheckProofOfWork_Some [OF w]
  show ?thesis by simp
qed

theorem CheckProofOfWork_inclusive_witness:
  "serialization_ok stub_collab
   \<and> CheckProofOfWork stub_collab stub_state = Some False
   \<and> CheckProofOfWork stub_collab (stub_state\<lparr>Target := 2 ^ 193\<rparr>) = Some True
   \<and> CheckProofOfWork stub_collab (stub_state\<lparr>Target := 2 ^ 193 - 1\<rparr>) = Some False"
proof -
  from CheckProofOfWork_inclusive [OF stub_serialization_ok, of stub_state]
  obtain w where w: "CalculateProofOfWorkValue stub_collab stub_state = Some w"
    and c: "CheckProofOfWork stub_collab stub_state = Some (w \<le> Target stub_state)"
      "CheckProofOfWork stub_collab (stub_state\<lparr>Target := w\<rparr>) = Some True"
      "CheckProofOfWork stub_collab (stub_state\<lparr>Target := w - 1\<rparr>) = Some False"
    by blast
  from w have "w = 2 ^ 193" by (simp add: stub_work)
  with c stub_serialization_ok show ?thesis by (simp add: stub_state_def)
qed

section \<open>Properties of the lookup table\<close>

lemma BigEndian_PutUint32_seed:
  "length seed = 32 \<Longrightarrow> drop 4 seed = replicate 28 0 \<Longrightarrow>
   BigEndian_PutUint32 seed v = Some (be_bytes 4 (unat v) @ replicate 28 0)"
  by (simp add: BigEndian_PutUint32_def)

lemma generateHoohashLookupTable_loop_spec:
  "sha256_ok c \<Longrightarrow> length seed = 32 \<Longrightarrow> drop 4 seed = replicate 28 0 \<Longrightarrow>
    \<exists>seed'. generateHoohashLookupTable_loop c i seed tbl =
      Some (seed', \<lambda>k. if i \<le> k \<and> k < tableSize
                      then of_nat (be_nat 0 (take 8 (sha256_Sum256 c
                             (be_bytes 4 (unat (of_nat k :: uint32)) @ replicate 28 0))))
                      else tbl k)"
proof (induction c i seed tbl rule: generateHoohashLookupTable_loop.induct)
  case (1 c i seed tbl)
  let ?entry = "\<lambda>k. of_nat (be_nat 0 (take 8 (sha256_Sum256 c
                  (be_bytes 4 (unat (of_nat k :: uint32)) @ replicate 28 0)))) :: uint64"
  show ?case
  proof (cases "i < tableSize")
    case False
    have "(\<lambda>k. if i \<le> k \<and> k < tableSize then ?entry k else tbl k) = tbl"
      using False by (auto simp: fun_eq_iff)
    with False show ?thesis
      by (subst generateHoohashLookupTable_loop.simps) simp
  next
    case True
    let ?seed = "be_bytes 4 (unat (of_nat i :: uint32)) @ replicate 28 0"
    have put: "BigEndian_PutUint32 seed (of_nat i) = Some ?seed"
      using "1.prems"(2,3) by (rule BigEndian_PutUint32_seed)
    have len: "8 \<le> length (sha256_Sum256 c ?seed)"
      using "1.prems"(1) by (simp add: sha256_ok_def)
    have dec: "BigEndian_Uint64 (take 8 (sha256_Sum256 c ?seed)) = Some (?entry i)"
      using len by (simp add: BigEndian_Uint64_def)
    have "\<exists>seed'. generateHoohashLookupTable_loop c (i + 1) ?seed (tbl(i := ?entry i)) =
      Some (seed', \<lambda>k. if i + 1 \<le> k \<and> k < tableSize then ?entry k
                      else (tbl(i := ?entry i)) k)"
      by (rule "1.IH" [OF True put refl dec "1.prems"(1)]) simp_all
    then obtain seed' where ih:
      "generateHoohashLookupTable_loop c (i + 1) ?seed (tbl(i := ?entry i)) =
         Some (seed', \<lambda>k. if i + 1 \<le> k \<and> k < tableSize then ?entry k
                         else (tbl(i := ?entry i)) k)" by blast
    have eq: "(\<lambda>k. if i + 1 \<le> k \<and> k < tableSize then ?entry k else (tbl(i := ?entry i)) k)
           = (\<lambda>k. if i \<le> k \<and> k < tableSize then ?entry k else tbl k)"
      using True by (auto simp: fun_eq_iff)
    have "generateHoohashLookupTable_loop c i seed tbl =
          generateHoohashLookupTable_loop c (i + 1) ?seed (tbl(i := ?entry i))"
      using True put dec by (subst generateHoohashLookupTable_loop.simps) simp
    with ih eq show ?thesis by simp
  qed
qed

lemma generateHoohashLookupTable_spec:
  assumes "sha256_ok c"
  shows "generateHoohashLookupTable c tbl =
      Some (\<lambda>k. if k < tableSize
                then of_nat (be_nat 0 (take 8 (sha256_Sum256 c
                       (be_bytes 4 (unat (of_nat k :: uint32)) @ replicate 28 0))))
                else tbl k)"
  using generateHoohashLookupTable_loop_spec [OF assms, of "replicate 32 0" 0 tbl]
  by (auto simp: generateHoohashLookupTable_def)

lemma unat_of_nat_index: "k < tableSize \<Longrightarrow> unat (of_nat k :: uint32) = k"
  by (simp add: tableSize_def unat_of_nat)

lemma lookupTable_entry_sha256_0:
  "lookupTable_entry sha256_collab 0 = Some 0x66687aadf862bd77"
proof -
  have "be_bytes 4 (unat (of_nat 0 :: uint32)) @ replicate 28 0 = (replicate 32 0 :: bytes)"
    by (simp add: be_bytes_def le_bytes_numeral replicate_numeral)
  then have "lookupTable_entry sha256_collab 0 =
      Some (of_nat (be_nat 0 (take 8 (SHA256 (replicate 32 0)))))"
    unfolding lookupTable_entry_def generateHoohashLookupTable_spec [OF sha256_collab_ok]
    by (simp add: tableSize_def sha256_collab_def)
  then show ?thesis
    unfolding SHA256_zero32 by simp
qed

text \<open>
  C2 (amended). After \<open>generateHoohashLookupTable\<close> has run, \<open>lookupTable[i]\<close> is, for every
  \<open>i < 2^20\<close>, the big-endian 64-bit word in the first 8 bytes of SHA-256 applied to the
  32-byte seed: the 4-byte big-endian encoding of \<open>i\<close> followed by 28 zero bytes. Nothing
  outside the array's range is written.
\<close>

theorem generateHoohashLookupTable_entries:
  assumes "sha256_ok c"
  shows "\<exists>lookupTable'. generateHoohashLookupTable c lookupTable = Some lookupTable'
     \<and> (\<forall>i<tableSize.
           BigEndian_Uint64 (take 8 (sha256_Sum256 c (be_bytes 4 i @ replicate 28 0)))
             = Some (lookupTable' i))
     \<and> (\<forall>i\<ge>tableSize. lookupTable' i = lookupTable i)"
proof -
  have "8 \<le> length (sha256_Sum256 c m)" for m
    using assms by (simp add: sha256_ok_def)
  then show ?thesis
    unfolding generateHoohashLookupTable_spec [OF assms]
    by (simp add: BigEndian_Uint64_def unat_of_nat_index)
qed

theorem generateHoohashLookupTable_entries_witness:
  "sha256_ok sha256_collab
   \<and> BigEndian_Uint64 (take 8 (SHA256 (be_bytes 4 0 @ replicate 28 0)))
       = lookupTable_entry sha256_collab 0
   \<and> lookupTable_entry sha256_collab 0 = Some 0x66687aadf862bd77"
proof -
  from generateHoohashLookupTable_entries [OF sha256_collab_ok, of "\<lambda>k. 0"]
  obtain t where t: "generateHoohashLookupTable sha256_collab (\<lambda>k. 0) = Some t"
    and e: "\<forall>i<tableSize.
        BigEndian_Uint64 (take 8 (sha256_Sum256 sha256_collab (be_bytes 4 i @ replicate 28 0)))
          = Some (t i)"
    by blast
  have "(0::nat) < tableSize" by (simp add: tableSize_def)
  with e have "BigEndian_Uint64 (take 8 (SHA256 (be_bytes 4 0 @ replicate 28 0))) = Some (t 0)"
    by (auto simp: sha256_collab_def)
  with t sha256_collab_ok lookupTable_entry_sha256_0 show ?thesis
    by (simp add: lookupTable_entry_def)
qed

text \<open>
  C2 as stated fails: with the real SHA-256, entry 0 is \<open>0x66687aadf862bd77\<close>, from the
  digest of 32 zero bytes, and not \<open>0xdf3f619804a92fdb\<close>, the first 8 bytes of the digest
  of the 4-byte encoding of 0.
\<close>

theorem lookupTable_entry_4_byte_counterexample:
  "lookupTable_entry sha256_collab 0
     \<noteq> BigEndian_Uint64 (take 8 (sha256_Sum256 sha256_collab (be_bytes 4 0)))"
proof -
  have "be_bytes 4 0 = (replicate 4 0 :: bytes)"
    by (simp add: be_bytes_def le_bytes_numeral replicate_numeral)
  then have "BigEndian_Uint64 (take 8 (sha256_Sum256 sha256_collab (be_bytes 4 0)))
      = Some 0xdf3f619804a92fdb"
    by (simp add: sha256_collab_def SHA256_zero4 BigEndian_Uint64_def)
  then show ?thesis
    by (simp add: lookupTable_entry_sha256_0)
qed

section \<open>NewState\<close>

text \<open>
  C8. \<open>NewState\<close> returns with the header exactly as it was given (timestamp and nonce
  restored), the State's \<open>Timestamp\<close> and \<open>Nonce\<close> are the header's, and the pre-PoW hash
  is the header hash taken while both fields were zero.
\<close>

theorem NewState_restores_header:
  assumes "sha256_ok c"
  shows "\<exists>state header' lookupTable'.
      NewState c header lookupTable = Some (state, header', lookupTable')
      \<and> hdr_TimeInMilliseconds header' = hdr_TimeInMilliseconds header
      \<and> hdr_Nonce header' = hdr_Nonce header
      \<and> Timestamp state = hdr_TimeInMilliseconds header
      \<and> Nonce state = hdr_Nonce header
      \<and> prePowHash state
          = HeaderHash c (header\<lparr>hdr_TimeInMilliseconds := 0, hdr_Nonce := 0\<rparr>)"
  by (simp add: NewState_def Let_def generateHoohashLookupTable_spec [OF assms])

theorem NewState_restores_header_witness:
  "sha256_ok stub_collab
   \<and> (\<exists>state header' lookupTable'.
        NewState stub_collab stub_header (\<lambda>k. 0) = Some (state, header', lookupTable')
        \<and> hdr_TimeInMilliseconds header' = 1700000000000 \<and> hdr_Nonce header' = 42
        \<and> Timestamp state = 1700000000000 \<and> Nonce state = 42
        \<and> prePowHash state = [0, 0, 0, 0, 0, 0, 0, 0, 0, 0, 0, 0, 0, 0, 0, 0,
                               0xff, 0xff, 0x7f, 0x1e, 0, 0, 0, 0, 0, 0, 0, 0, 0, 0, 0, 0])"
proof -
  have "HeaderHash stub_collab (stub_header\<lparr>hdr_TimeInMilliseconds := 0, hdr_Nonce := 0\<rparr>)
      = [0, 0, 0, 0, 0, 0, 0, 0, 0, 0, 0, 0, 0, 0, 0, 0,
         0xff, 0xff, 0x7f, 0x1e, 0, 0, 0, 0, 0, 0, 0, 0, 0, 0, 0, 0]"
    by (simp add: stub_collab_def stub_header_def fit_def le_bytes_numeral replicate_numeral)
  with NewState_restores_header [OF stub_sha256_ok, of stub_header "\<lambda>k. 0"] stub_sha256_ok
  show ?thesis by (auto simp: stub_header_def)
qed

section \<open>Properties of memoryHardFunction\<close>

lemma LittleEndian_Uint64_take:
  "8 \<le> length a \<Longrightarrow> LittleEndian_Uint64 a = Some (of_nat (le_nat (take 8 a)))"
  by (simp add: LittleEndian_Uint64_def)

lemma memoryHardFunction_init_cong:
  "LittleEndian_Uint64 a = LittleEndian_Uint64 b \<Longrightarrow>
   memoryHardFunction_init a i memory = memoryHardFunction_init b i memory"
proof (induction a i memory rule: memoryHardFunction_init.induct)
  case (1 input i memory)
  show ?case
  proof (cases "i < length memory")
    case False
    then show ?thesis
      by (simp add: memoryHardFunction_init.simps [of input] memoryHardFunction_init.simps [of b])
  next
    case True
    show ?thesis
    proof (cases "LittleEndian_Uint64 input")
      case None
      with True "1.prems" show ?thesis
        by (simp add: memoryHardFunction_init.simps [of input] memoryHardFunction_init.simps [of b])
    next
      case (Some v)
      from "1.IH" [OF True Some "1.prems"] True Some "1.prems" show ?thesis
        by (simp add: memoryHardFunction_init.simps [of input i] memoryHardFunction_init.simps [of b i])
    qed
  qed
qed

lemma memoryHardFunction_init_spec:
  "LittleEndian_Uint64 input = Some v \<Longrightarrow> i \<le> length memory \<Longrightarrow>
   memoryHardFunction_init input i memory = Some (take i memory @ replicate (length memory - i) v)"
proof (induction input i memory rule: memoryHardFunction_init.induct)
  case (1 input i memory)
  show ?case
  proof (cases "i < length memory")
    case False
    with "1.prems" show ?thesis
      by (subst memoryHardFunction_init.simps) simp
  next
    case True
    have "memoryHardFunction_init input i memory
        = memoryHardFunction_init input (i + 1) (memory[i := v])"
      using True "1.prems" by (subst memoryHardFunction_init.simps) simp
    also have "\<dots> = Some (take (i + 1) (memory[i := v])
                        @ replicate (length (memory[i := v]) - (i + 1)) v)"
      using "1.IH" [OF True "1.prems"(1) "1.prems"(1)] True by simp
    also have "take (i + 1) (memory[i := v]) = take i memory @ [v]"
      using True by (simp add: take_Suc_conv_app_nth)
    also have "(take i memory @ [v]) @ replicate (length (memory[i := v]) - (i + 1)) v
        = take i memory @ replicate (length memory - i) v"
      using True by (simp add: replicate_Suc [symmetric] Suc_diff_Suc del: replicate_Suc)
    finally show ?thesis .
  qed
qed

lemma memoryHardFunction_inner_length:
  "memoryHardFunction_inner h j memory = Some memory' \<Longrightarrow> length memory' = length memory"
proof (induction h j memory rule: memoryHardFunction_inner.induct)
  case (1 h j memory)
  show ?case
  proof (cases "j < memorySize")
    case False
    with "1.prems" show ?thesis
      by (simp add: memoryHardFunction_inner.simps [of h j])
  next
    case True
    from "1.prems" True obtain mj m1 m2 v where
      mj: "index memory j = Some mj"
      and m1: "index memory (unat (mj mod of_nat memorySize)) = Some m1"
      and m2: "index memory (unat (drop_bit 32 mj mod of_nat memorySize)) = Some m2"
      and v: "LittleEndian_Uint64 (h (le_bytes 8 (unat m1) @ le_bytes 8 (unat m2))) = Some v"
      and j: "j < length memory"
      and rest: "memoryHardFunction_inner h (j + 1) (memory[j := v]) = Some memory'"
      by (auto simp: memoryHardFunction_inner.simps [of h j] Let_def bind_eq_Some_conv
          split: if_splits)
    from "1.IH" [OF True mj refl refl m1 m2 refl v j rest] show ?thesis by simp
  qed
qed

lemma unat_mod_memorySize: "unat ((x :: uint64) mod of_nat memorySize) < memorySize"
  by (simp add: memorySize_def unat_mod)

lemma memoryHardFunction_inner_ok:
  "\<forall>m. 8 \<le> length (h m) \<Longrightarrow> length memory = memorySize \<Longrightarrow>
   \<exists>memory'. memoryHardFunction_inner h j memory = Some memory'"
proof (induction h j memory rule: memoryHardFunction_inner.induct)
  case (1 h j memory)
  show ?case
  proof (cases "j < memorySize")
    case False
    then show ?thesis by (simp add: memoryHardFunction_inner.simps [of h j])
  next
    case True
    let ?mj = "memory ! j"
    let ?i1 = "unat (?mj mod of_nat memorySize)"
    let ?i2 = "unat (drop_bit 32 ?mj mod of_nat memorySize)"
    let ?sum = "h (le_bytes 8 (unat (memory ! ?i1)) @ le_bytes 8 (unat (memory ! ?i2)))"
    let ?v = "of_nat (le_nat (take 8 ?sum)) :: uint64"
    have mj: "index memory j = Some ?mj"
      using True "1.prems"(2) by (simp add: index_def)
    have m1: "index memory ?i1 = Some (memory ! ?i1)"
      using "1.prems"(2) unat_mod_memorySize [of ?mj] by (simp add: index_def)
    have m2: "index memory ?i2 = Some (memory ! ?i2)"
      using "1.prems"(2) unat_mod_memorySize [of "drop_bit 32 ?mj"] by (simp add: index_def)
    have "8 \<le> length ?sum" using "1.prems"(1) by blast
    then have v: "LittleEndian_Uint64 ?sum = Some ?v"
      by (simp add: LittleEndian_Uint64_def)
    have j: "j < length memory" using True "1.prems"(2) by simp
    have "\<exists>memory'. memoryHardFunction_inner h (j + 1) (memory[j := ?v]) = Some memory'"
      by (rule "1.IH" [OF True mj refl refl m1 m2 refl v j "1.prems"(1)])
         (simp add: "1.prems"(2))
    then show ?thesis
      using True mj m1 m2 v j
      by (simp add: memoryHardFunction_inner.simps [of h j memory])
  qed
qed

lemma memoryHardFunction_outer_length:
  "memoryHardFunction_outer h i memory = Some memory' \<Longrightarrow> length memory' = length memory"
proof (induction h i memory rule: memoryHardFunction_outer.induct)
  case (1 h i memory)
  show ?case
  proof (cases "i < mh_iterations")
    case False
    with "1.prems" show ?thesis
      by (simp add: memoryHardFunction_outer.simps [of h i])
  next
    case True
    from "1.prems" True obtain m where
      m: "memoryHardFunction_inner h 0 memory = Some m"
      and rest: "memoryHardFunction_outer h (i + 1) m = Some memory'"
      by (auto simp: memoryHardFunction_outer.simps [of h i] bind_eq_Some_conv)
    from "1.IH" [OF True m rest] memoryHardFunction_inner_length [OF m]
    show ?thesis by simp
  qed
qed

lemma memoryHardFunction_outer_ok:
  "\<forall>m. 8 \<le> length (h m) \<Longrightarrow> length memory = memorySize \<Longrightarrow>
   \<exists>memory'. memoryHardFunction_outer h i memory = Some memory'"
proof (induction h i memory rule: memoryHardFunction_outer.induct)
  case (1 h i memory)
  show ?case
  proof (cases "i < mh_iterations")
    case False
    then show ?thesis by (simp add: memoryHardFunction_outer.simps [of h i])
  next
    case True
    from memoryHardFunction_inner_ok [OF "1.prems", of 0] obtain m
      where m: "memoryHardFunction_inner h 0 memory = Some m" by blast
    have "length m = memorySize"
      using memoryHardFunction_inner_length [OF m] "1.prems"(2) by simp
    from "1.IH" [OF True m "1.prems"(1) this] True m show ?thesis
      by (simp add: memoryHardFunction_outer.simps [of h i memory])
  qed
qed

lemma memoryHardFunction_combine_length:
  "memoryHardFunction_combine i result memory = Some r \<Longrightarrow> length r = length result"
proof (induction i result memory rule: memoryHardFunction_combine.induct)
  case (1 i result memory)
  show ?case
  proof (cases "i < 8")
    case False
    with "1.prems" show ?thesis
      by (simp add: memoryHardFunction_combine.simps [of i])
  next
    case True
    from "1.prems" True obtain tail m tail' where
      tail: "slice_from result (i * 8) = Some tail"
      and m: "index memory i = Some m"
      and tail': "LittleEndian_PutUint64 tail m = Some tail'"
      and rest: "memoryHardFunction_combine (i + 1) (take (i * 8) result @ tail') memory = Some r"
      by (auto simp: memoryHardFunction_combine.simps [of i] bind_eq_Some_conv)
    from tail have t: "tail = drop (i * 8) result" "i * 8 \<le> length result"
      by (auto simp: slice_from_def split: if_splits)
    from tail' have t': "tail' = le_bytes 8 (unat m) @ drop 8 tail" "8 \<le> length tail"
      by (auto simp: LittleEndian_PutUint64_def split: if_splits)
    have "length (take (i * 8) result @ tail') = length result"
      using t t' by simp
    with "1.IH" [OF True tail m tail' rest] show ?thesis by simp
  qed
qed

lemma memoryHardFunction_combine_ok:
  "length result = 64 \<Longrightarrow> 8 \<le> length memory \<Longrightarrow>
   \<exists>r. memoryHardFunction_combine i result memory = Some r"
proof (induction i result memory rule: memoryHardFunction_combine.induct)
  case (1 i result memory)
  show ?case
  proof (cases "i < 8")
    case False
    then show ?thesis by (simp add: memoryHardFunction_combine.simps [of i])
  next
    case True
    let ?tail = "drop (i * 8) result"
    let ?tail' = "le_bytes 8 (unat (memory ! i)) @ drop 8 ?tail"
    have tail: "slice_from result (i * 8) = Some ?tail"
      using True "1.prems"(1) by (simp add: slice_from_def)
    have m: "index memory i = Some (memory ! i)"
      using True "1.prems"(2) by (simp add: index_def)
    have tail': "LittleEndian_PutUint64 ?tail (memory ! i) = Some ?tail'"
      using True "1.prems"(1) by (simp add: LittleEndian_PutUint64_def)
    have len: "length (take (i * 8) result @ ?tail') = 64"
      using True "1.prems"(1) by simp
    from "1.IH" [OF True tail m tail' len "1.prems"(2)] True tail m tail'
    show ?thesis
      by (simp add: memoryHardFunction_combine.simps [of i result])
  qed
qed

lemma memoryHardFunction_length:
  "memoryHardFunction c input = Some r \<Longrightarrow> length r = 64"
  by (auto simp: memoryHardFunction_def bind_eq_Some_conv
      dest: memoryHardFunction_combine_length)

lemma memoryHardFunction_cong:
  "LittleEndian_Uint64 a = LittleEndian_Uint64 b \<Longrightarrow>
   memoryHardFunction c a = memoryHardFunction c b"
  by (simp add: memoryHardFunction_def memoryHardFunction_init_cong [of a b])

lemma memoryHardFunction_init_replicate:
  "8 \<le> length input \<Longrightarrow>
   memoryHardFunction_init input 0 (replicate memorySize 0)
     = Some (replicate memorySize (of_nat (le_nat (take 8 input))))"
  using memoryHardFunction_init_spec [of input _ 0 "replicate memorySize 0"]
  by (simp add: LittleEndian_Uint64_def)

lemma memoryHardFunction_ok:
  assumes "blake2b_ok c" "8 \<le> length input"
  shows "\<exists>r. memoryHardFunction c input = Some r \<and> length r = 64"
proof -
  let ?m0 = "replicate memorySize (of_nat (le_nat (take 8 input))) :: uint64 list"
  have "\<forall>m. 8 \<le> length (blake2b_Sum512 c m)"
    using assms(1) by (simp add: blake2b_ok_def)
  from memoryHardFunction_outer_ok [OF this, of ?m0 0] obtain m
    where m: "memoryHardFunction_outer (blake2b_Sum512 c) 0 ?m0 = Some m" by auto
  have "length m = memorySize"
    using memoryHardFunction_outer_length [OF m] by simp
  then have "8 \<le> length m" by (simp add: memorySize_def)
  from memoryHardFunction_combine_ok [OF _ this, of "replicate 64 0" 0] obtain r
    where r: "memoryHardFunction_combine 0 (replicate 64 0) m = Some r" by auto
  have "memoryHardFunction c input = Some r"
    by (simp add: memoryHardFunction_def memoryHardFunction_init_replicate [OF assms(2)] m r)
  with memoryHardFunction_length [of c input r] show ?thesis by simp
qed

text \<open>
  C9. \<open>memoryHardFunction\<close> reads its input only through
  \<open>binary.LittleEndian.Uint64(input)\<close>: two inputs of at least 8 bytes with the same first
  8 bytes give the same result (the result on the first 8 bytes alone), every word of the
  scratchpad starts as the little-endian decode of those bytes, and with a 64-byte
  BLAKE2b-512 sum the function returns.
\<close>

theorem memoryHardFunction_leading_8_bytes:
  assumes "8 \<le> length a" and "8 \<le> length b" and "take 8 a = take 8 b"
  shows "memoryHardFunction c a = memoryHardFunction c b
     \<and> memoryHardFunction c a = memoryHardFunction c (take 8 a)
     \<and> memoryHardFunction_init a 0 (replicate memorySize 0)
         = Some (replicate memorySize (of_nat (le_nat (take 8 a))))
     \<and> (blake2b_ok c \<longrightarrow> (\<exists>r. memoryHardFunction c a = Some r \<and> length r = 64))"
proof -
  have "LittleEndian_Uint64 a = LittleEndian_Uint64 b"
    using assms by (simp add: LittleEndian_Uint64_def)
  moreover have "LittleEndian_Uint64 a = LittleEndian_Uint64 (take 8 a)"
    using assms(1) by (simp add: LittleEndian_Uint64_def)
  ultimately show ?thesis
    using memoryHardFunction_cong [of a b c] memoryHardFunction_cong [of a "take 8 a" c]
      memoryHardFunction_init_replicate [OF assms(1)] memoryHardFunction_ok [OF _ assms(1), of c]
    by simp
qed

theorem memoryHardFunction_leading_8_bytes_witness:
  "8 \<le> length [1, 2, 3, 4, 5, 6, 7, 8, 9 :: byte]
   \<and> 8 \<le> length [1, 2, 3, 4, 5, 6, 7, 8, 10, 11 :: byte]
   \<and> take 8 [1, 2, 3, 4, 5, 6, 7, 8, 9 :: byte] = take 8 [1, 2, 3, 4, 5, 6, 7, 8, 10, 11]
   \<and> blake2b_ok stub_collab
   \<and> memoryHardFunction stub_collab [1, 2, 3, 4, 5, 6, 7, 8, 9]
       = memoryHardFunction stub_collab [1, 2, 3, 4, 5, 6, 7, 8, 10, 11]
   \<and> memoryHardFunction_init [1, 2, 3, 4, 5, 6, 7, 8, 9] 0 (replicate memorySize 0)
       = Some (replicate memorySize 0x0807060504030201)
   \<and> (\<exists>r. memoryHardFunction stub_collab [1, 2, 3, 4, 5, 6, 7, 8, 9] = Some r
            \<and> length r = 64)"
proof -
  let ?a = "[1, 2, 3, 4, 5, 6, 7, 8, 9] :: bytes"
  let ?b = "[1, 2, 3, 4, 5, 6, 7, 8, 10, 11] :: bytes"
  have h: "8 \<le> length ?a" "8 \<le> length ?b" "take 8 ?a = take 8 ?b"
    by simp_all
  have v: "(of_nat (le_nat (take 8 ?a)) :: uint64) = 0x0807060504030201"
    by simp
  from memoryHardFunction_leading_8_bytes [OF h, of stub_collab] stub_blake2b_ok
  have "memoryHardFunction stub_collab ?a = memoryHardFunction stub_collab ?b"
    and "memoryHardFunction_init ?a 0 (replicate memorySize 0)
        = Some (replicate memorySize (of_nat (le_nat (take 8 ?a))))"
    and "\<exists>r. memoryHardFunction stub_collab ?a = Some r \<and> length r = 64"
    by blast+
  with h v stub_blake2b_ok show ?thesis
    by (simp only: simp_thms)
qed

section \<open>Properties of verifiableDelayFunction\<close>

lemma vdf_prime:
  "SetString16 ''FFFFFFFFFFFFFFFFFFFFFFFFFFFFFFFFFFFFFFFFFFFFFFFFFFFFFFFEFFFFFC2F''
     = Some (2 ^ 256 - 2 ^ 32 - 977)"
  by (simp add: SetString16_def hexDigit_def)

lemma verifiableDelayFunction_loop_spec:
  "p \<noteq> 0 \<Longrightarrow> i \<le> vdf_iterations \<Longrightarrow>
   verifiableDelayFunction_loop i p x = Some (((\<lambda>x. x * x mod \<bar>p\<bar>) ^^ (vdf_iterations - i)) x)"
proof (induction i p x rule: verifiableDelayFunction_loop.induct)
  case (1 i p x)
  show ?case
  proof (cases "i < vdf_iterations")
    case False
    with "1.prems" show ?thesis
      by (subst verifiableDelayFunction_loop.simps) simp
  next
    case True
    have m: "big_Mod (x * x) p = Some (x * x mod \<bar>p\<bar>)"
      using "1.prems"(1) by (simp add: big_Mod_def)
    have "verifiableDelayFunction_loop i p x
        = verifiableDelayFunction_loop (i + 1) p (x * x mod \<bar>p\<bar>)"
      using True m by (subst verifiableDelayFunction_loop.simps) simp
    also have "\<dots> = Some (((\<lambda>x. x * x mod \<bar>p\<bar>) ^^ (vdf_iterations - (i + 1))) (x * x mod \<bar>p\<bar>))"
      using "1.IH" [OF True refl m "1.prems"(1)] True by simp
    also have "((\<lambda>x. x * x mod \<bar>p\<bar>) ^^ (vdf_iterations - (i + 1))) (x * x mod \<bar>p\<bar>)
        = ((\<lambda>x. x * x mod \<bar>p\<bar>) ^^ (vdf_iterations - i)) x"
    proof -
      have "vdf_iterations - i = Suc (vdf_iterations - (i + 1))"
        using True by simp
      then show ?thesis
        by (simp only: funpow_Suc_right o_apply)
    qed
    finally show ?thesis .
  qed
qed

lemma verifiableDelayFunction_spec:
  "verifiableDelayFunction c input =
     Some (sha256_Sum256 c (Bytes (((\<lambda>x. x * x mod (2 ^ 256 - 2 ^ 32 - 977)) ^^ 1000)
                                    (SetBytes input))))"
proof -
  have "verifiableDelayFunction_loop 0 (2 ^ 256 - 2 ^ 32 - 977) x
      = Some (((\<lambda>x. x * x mod (2 ^ 256 - 2 ^ 32 - 977)) ^^ 1000) x)" for x
    using verifiableDelayFunction_loop_spec [of "2 ^ 256 - 2 ^ 32 - 977" 0 x]
    by (simp add: vdf_iterations_def)
  then show ?thesis
    by (simp add: verifiableDelayFunction_def vdf_prime del: funpow.simps)
qed

lemma nat_Bytes_Nil: "nat_Bytes n = [] \<longleftrightarrow> n = 0"
  by (subst nat_Bytes.simps) simp

lemma be_nat_nat_Bytes: "be_nat 0 (nat_Bytes n) = n"
proof (induction n rule: nat_Bytes.induct)
  case (1 n)
  show ?case
  proof (cases "n = 0")
    case True
    then show ?thesis by (subst nat_Bytes.simps) simp
  next
    case False
    have "be_nat 0 (nat_Bytes n) = be_nat 0 (nat_Bytes (n div 256) @ [of_nat (n mod 256)])"
      using False by (subst nat_Bytes.simps) simp
    also have "\<dots> = (n div 256) * 256 + unat (of_nat (n mod 256) :: byte)"
      using "1.IH" [OF False] by (simp add: be_nat_append)
    also have "unat (of_nat (n mod 256) :: byte) = n mod 256"
      by (simp add: unat_of_nat)
    finally show ?thesis by simp
  qed
qed

lemma nat_Bytes_no_leading_zero: "take 1 (nat_Bytes n) \<noteq> [0]"
proof (induction n rule: nat_Bytes.induct)
  case (1 n)
  show ?case
  proof (cases "n = 0")
    case True
    then show ?thesis by (subst nat_Bytes.simps) simp
  next
    case False
    note step = nat_Bytes.simps [of n]
    show ?thesis
    proof (cases "n div 256 = 0")
      case True
      then have "n < 256" by (simp add: div_eq_0_iff)
      then have "unat (of_nat n :: byte) = n" by (simp add: unat_of_nat)
      with False have "(of_nat n :: byte) \<noteq> 0" by (metis unat_0)
      moreover have "nat_Bytes n = [of_nat n]"
        using False True \<open>n < 256\<close> nat_Bytes_Nil [of "n div 256"] by (simp add: step)
      ultimately show ?thesis by simp
    next
      case d: False
      then have "nat_Bytes (n div 256) \<noteq> []" by (simp add: nat_Bytes_Nil)
      then have "take 1 (nat_Bytes n) = take 1 (nat_Bytes (n div 256))"
        using False by (cases "nat_Bytes (n div 256)") (simp_all add: step)
      with "1.IH" [OF False] show ?thesis by simp
    qed
  qed
qed

text \<open>
  C6. For every input, \<open>verifiableDelayFunction\<close> returns (it never panics): the input is
  read as a big-endian unsigned integer, squared modulo \<open>p = 2^256 - 2^32 - 977\<close> exactly
  1000 times, and the result is SHA-256 of \<open>Bytes\<close> of the final value, the big-endian
  encoding without a leading zero byte.
\<close>

theorem verifiableDelayFunction_thousand_squarings:
  "verifiableDelayFunction c input =
     Some (sha256_Sum256 c (Bytes (((\<lambda>x. x * x mod (2 ^ 256 - 2 ^ 32 - 977)) ^^ 1000)
                                    (SetBytes input))))
   \<and> SetBytes input = int (be_nat 0 input)
   \<and> 0 \<le> ((\<lambda>x. x * x mod (2 ^ 256 - 2 ^ 32 - 977)) ^^ 1000) (SetBytes input)
   \<and> ((\<lambda>x. x * x mod (2 ^ 256 - 2 ^ 32 - 977)) ^^ 1000) (SetBytes input)
       < 2 ^ 256 - 2 ^ 32 - 977
   \<and> SetBytes (Bytes x) = \<bar>x\<bar>
   \<and> take 1 (Bytes x) \<noteq> [0]"
proof -
  let ?f = "\<lambda>x :: int. x * x mod (2 ^ 256 - 2 ^ 32 - 977)"
  have b: "SetBytes input = int (be_nat 0 input)"
    by (simp add: SetBytes_def)
  have "(?f ^^ 1000) y = ?f ((?f ^^ 999) y)" for y
    using funpow.simps(2) [of 999 ?f] by (simp only: o_apply eval_nat_numeral(3)) simp
  then have r: "0 \<le> (?f ^^ 1000) y \<and> (?f ^^ 1000) y < 2 ^ 256 - 2 ^ 32 - 977" for y
    by simp
  have e: "SetBytes (Bytes x) = \<bar>x\<bar>"
    by (simp add: SetBytes_def Bytes_def be_nat_nat_Bytes)
  have d: "take 1 (Bytes x) \<noteq> [0]"
    unfolding Bytes_def by (rule nat_Bytes_no_leading_zero)
  from verifiableDelayFunction_spec [of c input] b r [of "SetBytes input"] e d show ?thesis
    by blast
qed

section \<open>The rev2 variant\<close>

lemma memoryHardFunction_sha [simp]:
  "memoryHardFunction (c\<lparr>sha256_Sum256 := f\<rparr>) input = memoryHardFunction c input"
  by (simp add: memoryHardFunction_def)

lemma array32_append:
  "32 \<le> length R \<Longrightarrow> array32 (R @ V @ [t]) = Some (take 32 R)"
  by (simp add: array32_def)

lemma rev2_combined_Some:
  assumes "memoryHardFunction c powHash = Some R"
  shows "\<exists>V w. verifiableDelayFunction c R = Some V \<and> BigEndian_Uint64 R = Some w
            \<and> rev2_combined c lookupTable powHash
                = Some (R @ V @ [ucast (timeMemoryTradeoff lookupTable w)])"
proof -
  have "length R = 64" using assms by (rule memoryHardFunction_length)
  then obtain w where "BigEndian_Uint64 R = Some w"
    by (simp add: BigEndian_Uint64_def)
  then show ?thesis
    using assms by (simp add: rev2_combined_def verifiableDelayFunction_spec del: funpow.simps)
qed

lemma rev2_combined_None:
  "memoryHardFunction c powHash = None \<Longrightarrow> rev2_combined c lookupTable powHash = None"
  by (simp add: rev2_combined_def)

lemma rev2_closed_form:
  "CalculateProofOfWorkValueHoohashRev2 c lookupTable state =
     (case powMessage c state of
        None \<Rightarrow> None
      | Some message \<Rightarrow>
          (case memoryHardFunction c (Blake3Hash c message) of
             None \<Rightarrow> None
           | Some R \<Rightarrow>
               Some (toBig (Blake3Hash c
                 (HoohashMatrixMultiplication c (mat state) (take 32 R))))))"
proof (cases "powMessage c state")
  case None
  then show ?thesis by (simp add: CalculateProofOfWorkValueHoohashRev2_def)
next
  case (Some message)
  show ?thesis
  proof (cases "memoryHardFunction c (Blake3Hash c message)")
    case None
    with Some rev2_combined_None [OF None, of lookupTable] show ?thesis
      by (simp add: CalculateProofOfWorkValueHoohashRev2_def)
  next
    case (Some R)
    from rev2_combined_Some [OF Some, of lookupTable] obtain V t where
      "rev2_combined c lookupTable (Blake3Hash c message) = Some (R @ V @ [t])" by blast
    moreover have "32 \<le> length R" using memoryHardFunction_length [OF Some] by simp
    ultimately show ?thesis
      using \<open>powMessage c state = Some message\<close> Some
      by (simp add: CalculateProofOfWorkValueHoohashRev2_def array32_append)
  qed
qed

lemma powMessage_sha [simp]:
  "powMessage (c\<lparr>sha256_Sum256 := f\<rparr>) state = powMessage c state"
  by (simp add: powMessage_def)

text \<open>
  C1. In \<open>CalculateProofOfWorkValueHoohashRev2\<close> the slice \<open>combined\<close> is
  \<open>R || V || byte(T64)\<close> and its conversion to \<open>[32]byte\<close> keeps \<open>take 32 R\<close>: the work
  value is the second-pass hash of the matrix multiplication of the first 32 bytes of
  \<open>R\<close>. It is the same for any SHA-256 (the only source of \<open>V\<close>) and any lookup table
  (the only source of \<open>T64\<close>), and the conversion gives \<open>take 32 R\<close> whatever bytes
  stand in the places of \<open>V\<close> and \<open>byte(T64)\<close>.
\<close>

theorem rev2_ignores_vdf_and_tradeoff:
  "CalculateProofOfWorkValueHoohashRev2 c lookupTable state =
     (case powMessage c state of
        None \<Rightarrow> None
      | Some message \<Rightarrow>
          (case memoryHardFunction c (Blake3Hash c message) of
             None \<Rightarrow> None
           | Some R \<Rightarrow>
               Some (toBig (Blake3Hash c
                 (HoohashMatrixMultiplication c (mat state) (take 32 R))))))
   \<and> CalculateProofOfWorkValueHoohashRev2 (c\<lparr>sha256_Sum256 := sha'\<rparr>) lookupTable' state
       = CalculateProofOfWorkValueHoohashRev2 c lookupTable state
   \<and> (memoryHardFunction c powHash = Some R' \<longrightarrow>
        (\<exists>V w. verifiableDelayFunction c R' = Some V \<and> BigEndian_Uint64 R' = Some w
           \<and> rev2_combined c lookupTable powHash
               = Some (R' @ V @ [ucast (timeMemoryTradeoff lookupTable w)])
           \<and> array32 (R' @ V @ [ucast (timeMemoryTradeoff lookupTable w)])
               = Some (take 32 R')
           \<and> (\<forall>V' t'. array32 (R' @ V' @ [t']) = Some (take 32 R'))
           \<and> (sha256_ok c \<longrightarrow>
                length (R' @ V @ [ucast (timeMemoryTradeoff lookupTable w)]) = 97)))"
proof -
  have a: "CalculateProofOfWorkValueHoohashRev2 (c\<lparr>sha256_Sum256 := sha'\<rparr>) lookupTable' state
       = CalculateProofOfWorkValueHoohashRev2 c lookupTable state"
    unfolding rev2_closed_form by (simp cong: option.case_cong)
  have b: "\<exists>V w. verifiableDelayFunction c R' = Some V \<and> BigEndian_Uint64 R' = Some w
           \<and> rev2_combined c lookupTable powHash
               = Some (R' @ V @ [ucast (timeMemoryTradeoff lookupTable w)])
           \<and> array32 (R' @ V @ [ucast (timeMemoryTradeoff lookupTable w)])
               = Some (take 32 R')
           \<and> (\<forall>V' t'. array32 (R' @ V' @ [t']) = Some (take 32 R'))
           \<and> (sha256_ok c \<longrightarrow>
                length (R' @ V @ [ucast (timeMemoryTradeoff lookupTable w)]) = 97)"
    if "memoryHardFunction c powHash = Some R'"
  proof -
    from rev2_combined_Some [OF that, of lookupTable] obtain V w where
      V: "verifiableDelayFunction c R' = Some V" and w: "BigEndian_Uint64 R' = Some w"
      and cmb: "rev2_combined c lookupTable powHash
                  = Some (R' @ V @ [ucast (timeMemoryTradeoff lookupTable w)])"
      by blast
    have len: "length R' = 64" using that by (rule memoryHardFunction_length)
    then have arr: "array32 (R' @ V' @ [t']) = Some (take 32 R')" for V' t'
      by (simp add: array32_append)
    have "length V = 32" if "sha256_ok c"
      using V that
      by (auto simp: verifiableDelayFunction_spec sha256_ok_def simp del: funpow.simps)
    with len have "sha256_ok c \<longrightarrow>
        length (R' @ V @ [ucast (timeMemoryTradeoff lookupTable w)]) = 97"
      by simp
    with V w cmb arr show ?thesis by blast
  qed
  from a b rev2_closed_form [of c lookupTable state] show ?thesis by blast
qed

theorem rev2_ignores_vdf_and_tradeoff_witness:
  "\<exists>R. memoryHardFunction stub_collab (replicate 32 0) = Some R
     \<and> (\<exists>V w. verifiableDelayFunction stub_collab R = Some V \<and> BigEndian_Uint64 R = Some w
           \<and> rev2_combined stub_collab (\<lambda>k. 0) (replicate 32 0)
               = Some (R @ V @ [ucast (timeMemoryTradeoff (\<lambda>k. 0) w)])
           \<and> array32 (R @ V @ [ucast (timeMemoryTradeoff (\<lambda>k. 0) w)]) = Some (take 32 R)
           \<and> (\<forall>V' t'. array32 (R @ V' @ [t']) = Some (take 32 R))
           \<and> length (R @ V @ [ucast (timeMemoryTradeoff (\<lambda>k. 0) w)]) = 97)"
proof -
  from memoryHardFunction_ok [OF stub_blake2b_ok, of "replicate 32 0"] obtain R
    where R: "memoryHardFunction stub_collab (replicate 32 0) = Some R" by auto
  with rev2_ignores_vdf_and_tradeoff
      [of stub_collab "\<lambda>k. 0" stub_state id "\<lambda>k. 0" "replicate 32 0" R]
    stub_sha256_ok
  show ?thesis by blast
qed

text \<open>
  C10. With a 64-byte BLAKE2b-512 sum, \<open>memoryHardFunction\<close> returns exactly 64 bytes for
  every input of at least 8 bytes. With collaborators that honour their types, the rev2
  variant builds a \<open>combined\<close> slice of 97 bytes, the conversion to \<open>[32]byte\<close> succeeds,
  and the variant returns a work value for every State.
\<close>

theorem rev2_never_panics:
  assumes "blake2b_ok c" and "sha256_ok c" and "domainHash_ok c" and "serialization_ok c"
  shows "(8 \<le> length input \<longrightarrow> (\<exists>r. memoryHardFunction c input = Some r \<and> length r = 64))
     \<and> (\<exists>message combined w.
           powMessage c state = Some message
           \<and> rev2_combined c lookupTable (Blake3Hash c message) = Some combined
           \<and> length combined = 97
           \<and> array32 combined = Some (take 32 combined)
           \<and> CalculateProofOfWorkValueHoohashRev2 c lookupTable state = Some w)"
proof -
  from powMessage_ok [OF assms(4), of state] obtain message
    where m: "powMessage c state = Some message" by blast
  have "8 \<le> length (Blake3Hash c message)"
    using assms(3) by (simp add: domainHash_ok_def)
  from memoryHardFunction_ok [OF assms(1) this] obtain R
    where R: "memoryHardFunction c (Blake3Hash c message) = Some R" "length R = 64" by blast
  from rev2_combined_Some [OF R(1), of lookupTable] obtain V t
    where cmb: "rev2_combined c lookupTable (Blake3Hash c message) = Some (R @ V @ [t])"
      and V: "verifiableDelayFunction c R = Some V" by blast
  have "length V = 32"
    using V assms(2)
    by (auto simp: verifiableDelayFunction_spec sha256_ok_def simp del: funpow.simps)
  with R(2) have len: "length (R @ V @ [t]) = 97" by simp
  then have arr: "array32 (R @ V @ [t]) = Some (take 32 (R @ V @ [t]))"
    by (simp add: array32_def)
  have "\<exists>w. CalculateProofOfWorkValueHoohashRev2 c lookupTable state = Some w"
    using m R(1) by (simp add: rev2_closed_form)
  with m cmb len arr memoryHardFunction_ok [OF assms(1), of input] show ?thesis
    by blast
qed

theorem rev2_never_panics_witness:
  "blake2b_ok stub_collab \<and> sha256_ok stub_collab \<and> domainHash_ok stub_collab
   \<and> serialization_ok stub_collab
   \<and> 8 \<le> length (replicate 8 (1 :: byte))
   \<and> (\<exists>r. memoryHardFunction stub_collab (replicate 8 1) = Some r \<and> length r = 64)
   \<and> (\<exists>message combined w.
         powMessage stub_collab stub_state = Some message
         \<and> rev2_combined stub_collab (\<lambda>k. 0) (Blake3Hash stub_collab message) = Some combined
         \<and> length combined = 97
         \<and> array32 combined = Some (take 32 combined)
         \<and> CalculateProofOfWorkValueHoohashRev2 stub_collab (\<lambda>k. 0) stub_state = Some w)"
  using rev2_never_panics [OF stub_blake2b_ok stub_sha256_ok stub_domainHash_ok
      stub_serialization_ok, of "replicate 8 1" stub_state "\<lambda>k. 0"]
    stub_blake2b_ok stub_sha256_ok stub_domainHash_ok stub_serialization_ok
  by simp

section \<open>BlockLevel\<close>

lemma sint_of_nat_small: "bl \<le> 256 \<Longrightarrow> sint (of_nat bl :: 64 word) = int bl"
  by (simp add: signed_of_nat signed_take_bit_int_eq_self)

lemma sint_sub_small:
  assumes "bl \<le> 256" "- (2 ^ 63) + 256 \<le> sint (m :: 64 word)"
  shows "sint (m - of_nat bl) = sint m - int bl"
proof -
  have a: "sint (of_nat bl :: 64 word) = int bl" using assms(1) by (rule sint_of_nat_small)
  have b: "sint m < 2 ^ 63" using sint_lt [of m] by simp
  have "sint (m - of_nat bl) = signed_take_bit 63 (sint m - int bl)"
    using a by (simp add: sint_word_ariths)
  also have "\<dots> = sint m - int bl"
    using assms b by (simp add: signed_take_bit_int_eq_self_iff)
  finally show ?thesis .
qed

lemma sless0: "(x :: 64 word) <s 0 \<longleftrightarrow> sint x < 0"
  by (simp add: word_sless_alt)

lemma nat_BitLen_le: "n < 2 ^ k \<Longrightarrow> nat_BitLen n \<le> k"
proof (induction k arbitrary: n)
  case 0
  then show ?case by (subst nat_BitLen.simps) simp
next
  case (Suc k)
  show ?case
  proof (cases "n = 0")
    case True
    then show ?thesis by (subst nat_BitLen.simps) simp
  next
    case False
    have "n div 2 < 2 ^ k" using Suc.prems by simp
    from Suc.IH [OF this] False show ?thesis
      by (subst nat_BitLen.simps) simp
  qed
qed

lemma le_nat_less: "le_nat xs < 256 ^ length xs"
proof (induction xs)
  case Nil
  then show ?case by simp
next
  case (Cons b bs)
  have "unat b < 256" using unsigned_less [of b, where ?'a = nat] by simp
  with Cons show ?case by simp
qed


lemma BitLen_toBig: "BitLen (toBig h) \<le> 8 * length h"
proof -
  have "le_nat h < 2 ^ (8 * length h)"
    using le_nat_less [of h] by (simp add: power_mult)
  then show ?thesis
    by (simp add: toBig_le_nat BitLen_def nat_BitLen_le)
qed

lemma CalculateProofOfWorkValue_BitLen:
  "domainHash_ok c \<Longrightarrow> CalculateProofOfWorkValue c s = Some w \<Longrightarrow> BitLen w \<le> 256"
  using BitLen_toBig [of "bHeavyHash c (mat s) (PoWHash c m)" for m]
  by (auto simp: CalculateProofOfWorkValue_def domainHash_ok_def bind_eq_Some_conv)

lemma stub_header_work:
  "CalculateProofOfWorkValue stub_collab
     \<lparr>mat = (), Timestamp = 1700000000000, Nonce = 42, Target = t, prePowHash = h\<rparr>
   = Some (42 * 2 ^ 192)"
  by (simp add: CalculateProofOfWorkValue_def powMessage_def stub_collab_def
      fit_def toBig_le_nat le_bytes_numeral replicate_numeral)

lemma BitLen_stub_header_work: "BitLen (42 * 2 ^ 192) = 198"
  by (simp add: BitLen_def nat_BitLen.simps)

lemma BlockLevel_genesis:
  "hdr_DirectParents header = [] \<Longrightarrow>
   BlockLevel c header maxBlockLevel lookupTable = Some (maxBlockLevel, lookupTable)"
  by (simp add: BlockLevel_def)

lemma BlockLevel_stub_header:
  "map_option fst (BlockLevel stub_collab stub_header m lookupTable)
     = Some (if m - 198 <s 0 then 0 else m - 198)"
proof -
  obtain lookupTable' where
    "generateHoohashLookupTable stub_collab lookupTable = Some lookupTable'"
    by (simp add: generateHoohashLookupTable_spec [OF stub_sha256_ok])
  then have "\<exists>t h. NewState stub_collab stub_header lookupTable
      = Some (\<lparr>mat = (), Timestamp = 1700000000000, Nonce = 42, Target = t, prePowHash = h\<rparr>,
              stub_header, lookupTable')"
    by (simp add: NewState_def Let_def stub_header_def)
  then obtain t h where "NewState stub_collab stub_header lookupTable
      = Some (\<lparr>mat = (), Timestamp = 1700000000000, Nonce = 42, Target = t, prePowHash = h\<rparr>,
              stub_header, lookupTable')"
    by blast
  moreover have "hdr_DirectParents stub_header \<noteq> []"
    by (simp add: stub_header_def)
  moreover have "CalculateProofOfWorkValue stub_collab
      \<lparr>mat = (), Timestamp = 1700000000000, Nonce = 42, Target = t, prePowHash = h\<rparr>
      = Some (42 * 2 ^ 192)"
    by (rule stub_header_work)
  moreover have "(of_nat (BitLen (42 * 2 ^ 192)) :: goint) = 198"
    by (simp only: BitLen_stub_header_work) simp
  ultimately show ?thesis
    by (simp add: BlockLevel_def Let_def)
qed

text \<open>
  C5 (amended). \<open>BlockLevel\<close> returns \<open>maxBlockLevel\<close>, whatever its sign, for a header
  without direct parents. For any other header it builds the State, takes the original
  variant's work value \<open>w\<close> and returns \<open>maxBlockLevel - BitLen w\<close>, computed as Go
  computes it on a 64-bit \<open>int\<close> (the subtraction wraps), or 0 when that is negative as a
  signed value: for a header with parents the level is never negative, and it is
  \<open>max 0 (maxBlockLevel - BitLen w)\<close> as integers whenever
  \<open>maxBlockLevel \<ge> - 2^63 + 256\<close>, where the subtraction cannot wrap
  (\<open>BitLen w \<le> 256\<close>).
\<close>

theorem BlockLevel_spec:
  "(hdr_DirectParents header = [] \<longrightarrow>
      BlockLevel c header maxBlockLevel lookupTable = Some (maxBlockLevel, lookupTable))
   \<and> (hdr_DirectParents header \<noteq> [] \<and> sha256_ok c \<and> serialization_ok c \<and> domainHash_ok c \<longrightarrow>
       (\<exists>state header' lookupTable' w level.
          NewState c header lookupTable = Some (state, header', lookupTable')
          \<and> CalculateProofOfWorkValue c state = Some w
          \<and> BlockLevel c header maxBlockLevel lookupTable = Some (level, lookupTable')
          \<and> level = (if maxBlockLevel - of_nat (BitLen w) <s 0 then 0
                      else maxBlockLevel - of_nat (BitLen w))
          \<and> 0 \<le> sint level
          \<and> BitLen w \<le> 256
          \<and> (- (2 ^ 63) + 256 \<le> sint maxBlockLevel \<longrightarrow>
               sint level = max 0 (sint maxBlockLevel - int (BitLen w)))))"
proof (intro conjI impI)
  assume "hdr_DirectParents header = []"
  then show "BlockLevel c header maxBlockLevel lookupTable = Some (maxBlockLevel, lookupTable)"
    by (simp add: BlockLevel_def)
next
  assume a: "hdr_DirectParents header \<noteq> [] \<and> sha256_ok c \<and> serialization_ok c \<and> domainHash_ok c"
  then obtain state header' lookupTable' where
    ns: "NewState c header lookupTable = Some (state, header', lookupTable')"
    by (auto simp: NewState_def Let_def generateHoohashLookupTable_spec)
  from a CalculateProofOfWorkValue_ok [of c state] obtain w where
    w: "CalculateProofOfWorkValue c state = Some w" by blast
  have bl: "BitLen w \<le> 256"
    using a w by (auto dest: CalculateProofOfWorkValue_BitLen)
  define d where "d = maxBlockLevel - of_nat (BitLen w)"
  define level where "level = (if d <s 0 then 0 else d)"
  have r: "BlockLevel c header maxBlockLevel lookupTable = Some (level, lookupTable')"
    using a ns w by (simp add: BlockLevel_def level_def d_def Let_def)
  have nonneg: "0 \<le> sint level"
    by (simp add: level_def sless0)
  have exact: "sint level = max 0 (sint maxBlockLevel - int (BitLen w))"
    if "- (2 ^ 63) + 256 \<le> sint maxBlockLevel"
    using sint_sub_small [OF bl that] by (simp add: level_def d_def sless0)
  show "\<exists>state header' lookupTable' w level.
          NewState c header lookupTable = Some (state, header', lookupTable')
          \<and> CalculateProofOfWorkValue c state = Some w
          \<and> BlockLevel c header maxBlockLevel lookupTable = Some (level, lookupTable')
          \<and> level = (if maxBlockLevel - of_nat (BitLen w) <s 0 then 0
                      else maxBlockLevel - of_nat (BitLen w))
          \<and> 0 \<le> sint level
          \<and> BitLen w \<le> 256
          \<and> (- (2 ^ 63) + 256 \<le> sint maxBlockLevel \<longrightarrow>
               sint level = max 0 (sint maxBlockLevel - int (BitLen w)))"
    using ns w r nonneg bl exact unfolding level_def d_def by blast
qed

theorem BlockLevel_spec_witness:
  "BlockLevel stub_collab (stub_header\<lparr>hdr_DirectParents := []\<rparr>) 32 (\<lambda>k. 0)
     = Some (32, \<lambda>k. 0)
   \<and> hdr_DirectParents stub_header \<noteq> []
   \<and> sha256_ok stub_collab \<and> serialization_ok stub_collab \<and> domainHash_ok stub_collab
   \<and> (\<exists>lookupTable'. BlockLevel stub_collab stub_header 225 (\<lambda>k. 0) = Some (27, lookupTable'))
   \<and> (\<exists>lookupTable'. BlockLevel stub_collab stub_header 100 (\<lambda>k. 0) = Some (0, lookupTable'))"
proof -
  have g: "BlockLevel stub_collab (stub_header\<lparr>hdr_DirectParents := []\<rparr>) 32 (\<lambda>k. 0)
      = Some (32, \<lambda>k. 0)"
    using BlockLevel_spec [of "stub_header\<lparr>hdr_DirectParents := []\<rparr>" stub_collab 32 "\<lambda>k. 0"]
    by simp
  have p: "hdr_DirectParents stub_header \<noteq> []"
    by (simp add: stub_header_def)
  have lvl: "\<exists>lookupTable'. BlockLevel stub_collab stub_header m (\<lambda>k. 0)
        = Some (if m - 198 <s 0 then 0 else m - 198, lookupTable')" for m
  proof -
    from BlockLevel_spec [of stub_header stub_collab m "\<lambda>k. 0"] p
      stub_sha256_ok stub_serialization_ok stub_domainHash_ok
    obtain state header' lookupTable' w level where
      ns: "NewState stub_collab stub_header (\<lambda>k. 0) = Some (state, header', lookupTable')"
      and w: "CalculateProofOfWorkValue stub_collab state = Some w"
      and r: "BlockLevel stub_collab stub_header m (\<lambda>k. 0) = Some (level, lookupTable')"
      and l: "level = (if m - of_nat (BitLen w) <s 0 then 0 else m - of_nat (BitLen w))"
      by blast
    from ns obtain t h where
      "state = \<lparr>mat = (), Timestamp = 1700000000000, Nonce = 42, Target = t, prePowHash = h\<rparr>"
      by (auto simp: NewState_def Let_def stub_header_def bind_eq_Some_conv)
    with w have "w = 42 * 2 ^ 192" by (simp add: stub_header_work)
    with l have "level = (if m - 198 <s 0 then 0 else m - 198)"
      by (simp only: BitLen_stub_header_work) simp
    with r show ?thesis by blast
  qed
  from lvl [of 225] lvl [of 100] g p stub_sha256_ok stub_serialization_ok stub_domainHash_ok
  show ?thesis by (simp add: word_sless_alt)
qed

text \<open>
  C5 as stated fails in two places. A header without parents and \<open>maxBlockLevel = -5\<close>
  gives the level \<open>-5\<close>, a negative level. A header with parents, a work value of 198
  bits and \<open>maxBlockLevel = - 2^63 + 100\<close> gives \<open>2^63 - 98\<close>: the integer difference is
  negative, the 64-bit subtraction wraps to a positive value, and nothing is clamped.
\<close>

theorem BlockLevel_negative_level_counterexample:
  "hdr_DirectParents genesis_header = []
   \<and> BlockLevel stub_collab genesis_header (- 5) zero_table = Some (- 5, zero_table)
   \<and> sint (- 5 :: goint) < 0
   \<and> hdr_DirectParents stub_header \<noteq> []
   \<and> CalculateProofOfWorkValue stub_collab
         \<lparr>mat = (), Timestamp = hdr_TimeInMilliseconds stub_header,
          Nonce = hdr_Nonce stub_header, Target = 0, prePowHash = []\<rparr>
       = Some (42 * 2 ^ 192)
   \<and> BitLen (42 * 2 ^ 192) = 198
   \<and> sint (- (2 ^ 63) + 100 :: goint) - 198 < 0
   \<and> map_option fst (BlockLevel stub_collab stub_header (- (2 ^ 63) + 100) zero_table)
       = Some (2 ^ 63 - 98)
   \<and> sint (2 ^ 63 - 98 :: goint) = 9223372036854775710"
proof -
  have g: "hdr_DirectParents genesis_header = []"
    by (simp add: genesis_header_def)
  have w: "CalculateProofOfWorkValue stub_collab
         \<lparr>mat = (), Timestamp = hdr_TimeInMilliseconds stub_header,
          Nonce = hdr_Nonce stub_header, Target = 0, prePowHash = []\<rparr>
       = Some (42 * 2 ^ 192)"
    using stub_header_work [of 0 "[]"] by (simp add: stub_header_def)
  have l: "map_option fst (BlockLevel stub_collab stub_header (- (2 ^ 63) + 100) zero_table)
       = Some (2 ^ 63 - 98)"
    unfolding BlockLevel_stub_header by (simp add: word_sless_alt)
  have p: "hdr_DirectParents stub_header \<noteq> []"
    by (simp add: stub_header_def)
  have s1: "sint (- 5 :: goint) < 0" by simp
  have s2: "sint (- (2 ^ 63) + 100 :: goint) - 198 < 0" by simp
  have s3: "sint (2 ^ 63 - 98 :: goint) = 9223372036854775710" by simp
  from g BlockLevel_genesis [OF g, of stub_collab "- 5" zero_table] s1 p w
    BitLen_stub_header_work s2 l s3
  show ?thesis by (simp only: simp_thms)
qed

end
